theory Spec2Isabelle
  imports Main "HOL-Library.Char_ord" "HOL-Library.List_Lexorder"
begin

section \<open>Values of the Go program\<close>

text \<open>
  A Go \<^verbatim>\<open>string\<close> is a sequence of bytes, here a \<^typ>\<open>string\<close>; \<^verbatim>\<open>len\<close> is
  \<^const>\<open>length\<close>. A \<^verbatim>\<open>json.RawMessage\<close> is the bytes of the tool input as the model
  sent them.
\<close>

type_synonym RawMessage = string

text \<open>
  A Go \<^verbatim>\<open>error\<close> value. The program reads two things of an error: its message
  (\<^verbatim>\<open>err.Error()\<close>) and whether \<^verbatim>\<open>os.IsNotExist\<close> accepts it.
\<close>

datatype error = NotExist string | Failure string

fun Error :: "error \<Rightarrow> string" where
  "Error (NotExist m) = m"
| "Error (Failure m) = m"

fun os_IsNotExist :: "error \<Rightarrow> bool" where
  "os_IsNotExist (NotExist m) = True"
| "os_IsNotExist (Failure m) = False"

text \<open>
  \<^verbatim>\<open>fmt.Errorf\<close>, applied to the formatted message. An error made by \<^verbatim>\<open>%w\<close> is not
  one that \<^verbatim>\<open>os.IsNotExist\<close> accepts (it does not unwrap).
\<close>

definition fmt_Errorf :: "string \<Rightarrow> error" where
  "fmt_Errorf m = Failure m"

text \<open>
  A call either returns or panics. A tool handler returns Go's \<^verbatim>\<open>(string, error)\<close>:
  \<open>Inl err\<close> when \<^verbatim>\<open>err != nil\<close>, \<open>Inr response\<close> otherwise.
\<close>

datatype 'a outcome = Panic error | Return 'a

type_synonym 'w handler = "RawMessage \<Rightarrow> 'w \<Rightarrow> (error + string) outcome \<times> 'w"

record ReadFileInput =
  Path :: string

record ListFilesInput =
  Path :: string

record EditFileInput =
  Path :: string
  OldStr :: string
  NewStr :: string

record CommandExecutionInput =
  Command :: string

text \<open>One call of the function that \<^verbatim>\<open>filepath.Walk\<close> is given: the path, \<^verbatim>\<open>info.IsDir()\<close>, \<^verbatim>\<open>err\<close>.\<close>

datatype walk_call = WalkCall string bool "error option"

section \<open>The libraries and the operating system\<close>

text \<open>
  What the program calls and does not define: the JSON decoder for each input struct, the
  file system, the shell, the terminal and the model's API. They are the fields of one
  record over the state \<open>'w\<close> of the world, and every theorem below holds for all of them.
  Reading (\<open>os_ReadFile\<close>, \<open>filepath_Walk\<close>) returns a value and leaves the world as it is.
  \<open>filepath_Walk L root w\<close> is the sequence of calls \<^verbatim>\<open>filepath.Walk(root, fn)\<close> makes to a
  \<^verbatim>\<open>fn\<close> that returns \<^verbatim>\<open>nil\<close>; the walk ends at the first call where \<^verbatim>\<open>fn\<close> returns an error.
  \<open>os_Stdin_line\<close> gives the line that the operator types at the prompt of the command
  tool, without its newline, and the world once \<^verbatim>\<open>fmt.Scanln\<close> has read from it;
  \<open>unicode_first_word\<close> is what \<^verbatim>\<open>fmt.Scanln\<close> stores of a line that is not all ASCII.
  \<open>json_string\<close> is the JSON string literal that \<^verbatim>\<open>json.Marshal\<close> writes for a Go string.
  \<open>exec_CombinedOutput L c\<close> is \<^verbatim>\<open>exec.Command("bash", "-c", c).CombinedOutput()\<close>.
  \<open>unicode_ToLower\<close> is \<^verbatim>\<open>strings.Map(unicode.ToLower, s)\<close>, which \<^verbatim>\<open>strings.ToLower\<close> uses on a
  string that is not all ASCII; \<open>utf8_DecodeRuneInString\<close> is the width in bytes of the
  first rune of a string. The permissions \<^verbatim>\<open>0644\<close> and \<^verbatim>\<open>0755\<close> are the numbers 420 and 493.
  Output to the terminal is not modelled.
\<close>

record 'w lib =
  Unmarshal_ReadFileInput :: "RawMessage \<Rightarrow> error + ReadFileInput"
  Unmarshal_ListFilesInput :: "RawMessage \<Rightarrow> error + ListFilesInput"
  Unmarshal_EditFileInput :: "RawMessage \<Rightarrow> error + EditFileInput"
  Unmarshal_CommandExecutionInput :: "RawMessage \<Rightarrow> error + CommandExecutionInput"
  json_string :: "string \<Rightarrow> string"
  os_ReadFile :: "string \<Rightarrow> 'w \<Rightarrow> error + string"
  os_WriteFile :: "string \<Rightarrow> string \<Rightarrow> nat \<Rightarrow> 'w \<Rightarrow> error option \<times> 'w"
  os_MkdirAll :: "string \<Rightarrow> nat \<Rightarrow> 'w \<Rightarrow> error option \<times> 'w"
  path_Dir :: "string \<Rightarrow> string"
  filepath_Walk :: "string \<Rightarrow> 'w \<Rightarrow> walk_call list"
  filepath_Rel :: "string \<Rightarrow> string \<Rightarrow> error + string"
  unicode_ToLower :: "string \<Rightarrow> string"
  utf8_DecodeRuneInString :: "string \<Rightarrow> nat"
  os_Stdin_line :: "'w \<Rightarrow> string \<times> 'w"
  unicode_first_word :: "string \<Rightarrow> string"
  exec_CombinedOutput :: "string \<Rightarrow> 'w \<Rightarrow> (string \<times> error option) \<times> 'w"

section \<open>The functions of package strings that the tools use\<close>

definition ascii_lower :: "char \<Rightarrow> char" where
  "ascii_lower c =
     (if (65::nat) \<le> of_char c \<and> of_char c \<le> (90::nat) then char_of (of_char c + (32::nat)) else c)"

text \<open>\<^verbatim>\<open>strings.ToLower\<close>: bytewise on an ASCII string, through Unicode otherwise.\<close>

definition strings_ToLower :: "'w lib \<Rightarrow> string \<Rightarrow> string" where
  "strings_ToLower L s =
     (if list_all (\<lambda>c. of_char c < (128::nat)) s then map ascii_lower s else unicode_ToLower L s)"

fun strings_HasPrefix :: "string \<Rightarrow> string \<Rightarrow> bool" where
  "strings_HasPrefix s [] = True"
| "strings_HasPrefix [] (p # ps) = False"
| "strings_HasPrefix (c # s) (p # ps) = (c = p \<and> strings_HasPrefix s ps)"

fun strings_Contains :: "string \<Rightarrow> string \<Rightarrow> bool" where
  "strings_Contains [] substr = (substr = [])"
| "strings_Contains (c # s) substr = (strings_HasPrefix (c # s) substr \<or> strings_Contains s substr)"

text \<open>
  \<^verbatim>\<open>strings.Replace(s, old, new, -1)\<close> for a non-empty \<open>old\<close>: the matches are taken from
  the left and do not overlap.
\<close>

function replace_matches :: "string \<Rightarrow> string \<Rightarrow> string \<Rightarrow> string" where
  "replace_matches s old new =
     (if s = [] \<or> old = [] then s
      else if strings_HasPrefix s old then new @ replace_matches (drop (length old) s) old new
      else hd s # replace_matches (tl s) old new)"
  by pat_completeness auto
termination
  by (relation "measure (\<lambda>(s, old, new). length s)") auto

declare replace_matches.simps [simp del]

text \<open>The number of matches that \<open>replace_matches\<close> replaces.\<close>

function count_matches :: "string \<Rightarrow> string \<Rightarrow> nat" where
  "count_matches s old =
     (if s = [] \<or> old = [] then 0
      else if strings_HasPrefix s old then Suc (count_matches (drop (length old) s) old)
      else count_matches (tl s) old)"
  by pat_completeness auto
termination
  by (relation "measure (\<lambda>(s, old). length s)") auto

declare count_matches.simps [simp del]

text \<open>
  For an empty \<open>old\<close>, \<^verbatim>\<open>strings.Replace\<close> puts \<open>new\<close> before the first rune and after every
  rune. A rune of a non-empty string is at least one byte and at most the string.
\<close>

function after_each_rune :: "'w lib \<Rightarrow> string \<Rightarrow> string \<Rightarrow> string" where
  "after_each_rune L s new =
     (if s = [] then []
      else (let wid = max 1 (min (length s) (utf8_DecodeRuneInString L s))
            in take wid s @ new @ after_each_rune L (drop wid s) new))"
  by pat_completeness auto
termination
  by (relation "measure (\<lambda>(L, s, new). length s)") auto

declare after_each_rune.simps [simp del]

definition strings_Replace_all :: "'w lib \<Rightarrow> string \<Rightarrow> string \<Rightarrow> string \<Rightarrow> string" where
  "strings_Replace_all L s old new =
     (if old = new then s
      else if old = [] then new @ after_each_rune L s new
      else replace_matches s old new)"

text \<open>\<^verbatim>\<open>%q\<close> of a string of printable ASCII without quote or backslash.\<close>

definition quoted :: "string \<Rightarrow> string" where
  "quoted s = [CHR 0x22] @ s @ [CHR 0x22]"

section \<open>What the tools use of packages fmt and encoding/json\<close>

text \<open>
  \<^verbatim>\<open>fmt.Scanln(&confirmation)\<close> skips the spaces at the start of the line and stores the
  runes up to the next space: the first word of the line, or nothing for a line without a
  word. The error it returns for what follows the word is dropped by the caller. The ASCII
  spaces of package fmt are the bytes 9 to 13 and 32.
\<close>

definition fmt_isSpace :: "char \<Rightarrow> bool" where
  "fmt_isSpace c = (((9::nat) \<le> of_char c \<and> of_char c \<le> (13::nat)) \<or> of_char c = (32::nat))"

definition Scanln_word :: "'w lib \<Rightarrow> string \<Rightarrow> string" where
  "Scanln_word L line =
     (if list_all (\<lambda>c. of_char c < (128::nat)) line then
        takeWhile (\<lambda>c. \<not> fmt_isSpace c) (dropWhile fmt_isSpace line)
      else unicode_first_word L line)"

definition fmt_Scanln :: "'w lib \<Rightarrow> 'w \<Rightarrow> string \<times> 'w" where
  "fmt_Scanln L w = (case os_Stdin_line L w of (line, w') \<Rightarrow> (Scanln_word L line, w'))"

text \<open>
  \<^verbatim>\<open>json.Marshal\<close> of a \<^verbatim>\<open>[]string\<close>: \<^verbatim>\<open>null\<close> for the nil slice, and otherwise the
  array of the string literals, with commas and no spaces. It returns no error. The slice
  of \<open>ListFiles\<close> is nil exactly when it is empty, so the empty list stands for the nil slice.
\<close>

fun comma_separated :: "string list \<Rightarrow> string" where
  "comma_separated [] = []"
| "comma_separated [x] = x"
| "comma_separated (x # y # ys) = x @ '','' @ comma_separated (y # ys)"

definition json_Marshal :: "'w lib \<Rightarrow> string list \<Rightarrow> error + string" where
  "json_Marshal L files =
     (if files = [] then Inr ''null''
      else Inr (''['' @ comma_separated (map (json_string L) files) @ '']''))"

section \<open>The tools\<close>

subsection \<open>read\_file\<close>

definition ReadFile :: "'w lib \<Rightarrow> 'w handler" where
  "ReadFile L input w =
     (case Unmarshal_ReadFileInput L input of
        Inl err \<Rightarrow> (Panic err, w)
      | Inr readFileInput \<Rightarrow>
          (case os_ReadFile L (ReadFileInput.Path readFileInput) w of
             Inl err \<Rightarrow> (Return (Inl err), w)
           | Inr content \<Rightarrow> (Return (Inr content), w)))"

subsection \<open>list\_files\<close>

text \<open>The function literal passed to \<^verbatim>\<open>filepath.Walk\<close>; \<open>files\<close> is the slice it appends to.\<close>

fun ListFiles_walkFn :: "'w lib \<Rightarrow> string \<Rightarrow> string list \<Rightarrow> walk_call \<Rightarrow> error + string list" where
  "ListFiles_walkFn L dir files (WalkCall path isDir err) =
     (case err of
        Some e \<Rightarrow> Inl e
      | None \<Rightarrow>
          (case filepath_Rel L dir path of
             Inl e \<Rightarrow> Inl e
           | Inr relPath \<Rightarrow>
               if relPath \<noteq> ''.'' then
                 (if isDir then Inr (files @ [relPath @ ''/'']) else Inr (files @ [relPath]))
               else Inr files))"

fun walk_calls :: "'w lib \<Rightarrow> string \<Rightarrow> walk_call list \<Rightarrow> string list \<Rightarrow> error + string list" where
  "walk_calls L dir [] files = Inr files"
| "walk_calls L dir (c # cs) files =
     (case ListFiles_walkFn L dir files c of
        Inl e \<Rightarrow> Inl e
      | Inr files' \<Rightarrow> walk_calls L dir cs files')"

definition ListFiles :: "'w lib \<Rightarrow> 'w handler" where
  "ListFiles L input w =
     (case Unmarshal_ListFilesInput L input of
        Inl err \<Rightarrow> (Panic err, w)
      | Inr listFilesInput \<Rightarrow>
          (let dir = (if ListFilesInput.Path listFilesInput \<noteq> [] then ListFilesInput.Path listFilesInput
                      else ''.'')
           in case walk_calls L dir (filepath_Walk L dir w) [] of
                Inl err \<Rightarrow> (Return (Inl err), w)
              | Inr files \<Rightarrow>
                  (case json_Marshal L files of
                     Inl err \<Rightarrow> (Return (Inl err), w)
                   | Inr result \<Rightarrow> (Return (Inr result), w))))"

subsection \<open>edit\_file\<close>

definition createNewFile :: "'w lib \<Rightarrow> string \<Rightarrow> string \<Rightarrow> 'w \<Rightarrow> (error + string) \<times> 'w" where
  "createNewFile L filePath content w =
     (let dir = path_Dir L filePath;
          (mkdirErr, w1) = (if dir \<noteq> ''.'' then os_MkdirAll L dir 493 w else (None, w))
      in case mkdirErr of
           Some err \<Rightarrow> (Inl (fmt_Errorf (''failed to create directory: '' @ Error err)), w1)
         | None \<Rightarrow>
             (case os_WriteFile L filePath content 420 w1 of
                (Some err, w2) \<Rightarrow> (Inl (fmt_Errorf (''failed to create file: '' @ Error err)), w2)
              | (None, w2) \<Rightarrow> (Inr (''Successfully created file '' @ filePath), w2)))"

definition EditFile :: "'w lib \<Rightarrow> 'w handler" where
  "EditFile L input w =
     (case Unmarshal_EditFileInput L input of
        Inl err \<Rightarrow> (Return (Inl err), w)
      | Inr editFileInput \<Rightarrow>
          if EditFileInput.Path editFileInput = [] \<or> OldStr editFileInput = NewStr editFileInput then
            (Return (Inl (fmt_Errorf ''invalid input parameters'')), w)
          else
            (case os_ReadFile L (EditFileInput.Path editFileInput) w of
               Inl err \<Rightarrow>
                 if os_IsNotExist err \<and> OldStr editFileInput = [] then
                   (case createNewFile L (EditFileInput.Path editFileInput) (NewStr editFileInput) w of
                      (r, w') \<Rightarrow> (Return r, w'))
                 else (Return (Inl err), w)
             | Inr oldContent \<Rightarrow>
                 (let newContent =
                        strings_Replace_all L oldContent (OldStr editFileInput) (NewStr editFileInput)
                  in if oldContent = newContent \<and> OldStr editFileInput \<noteq> [] then
                       (Return (Inl (fmt_Errorf ''old_str not found in file'')), w)
                     else
                       (case os_WriteFile L (EditFileInput.Path editFileInput) newContent 420 w of
                          (Some err, w') \<Rightarrow> (Return (Inl err), w')
                        | (None, w') \<Rightarrow> (Return (Inr ''OK''), w')))))"

subsection \<open>command\_execution\<close>

definition disallowed :: "string list" where
  "disallowed =
     [''rm '', ''shutdown'', ''reboot'', ''kill '', ''passwd'', ''chown'', ''chmod'', ''sudo'', ''su'']"

definition CommandExecution :: "'w lib \<Rightarrow> 'w handler" where
  "CommandExecution L input w =
     (case Unmarshal_CommandExecutionInput L input of
        Inl err \<Rightarrow> (Return (Inl err), w)
      | Inr commandInput \<Rightarrow>
          if Command commandInput = [] then
            (Return (Inl (fmt_Errorf ''command cannot be empty'')), w)
          else
            (let lowerCmd = strings_ToLower L (Command commandInput)
             in case find (strings_Contains lowerCmd) disallowed of
                  Some d \<Rightarrow>
                    (Return (Inl (fmt_Errorf (''command contains disallowed operation: '' @ quoted d))), w)
                | None \<Rightarrow>
                    if strings_Contains lowerCmd ''cd '' then
                      (Return (Inl (fmt_Errorf ''changing directories is not allowed'')), w)
                    else if length (Command commandInput) > 256 then
                      (Return (Inl (fmt_Errorf ''command too long'')), w)
                    else if strings_Contains lowerCmd ''/'' \<or> strings_Contains lowerCmd ''..'' then
                      (Return (Inl (fmt_Errorf
                         ''command cannot access files outside the current working directory'')), w)
                    else
                      (case fmt_Scanln L w of
                         (confirmation, w1) \<Rightarrow>
                           if strings_ToLower L confirmation \<noteq> ''yes'' then
                             (Return (Inl (fmt_Errorf ''command execution cancelled by user'')), w1)
                           else
                             (case exec_CombinedOutput L (Command commandInput) w1 of
                                ((output, Some err), w2) \<Rightarrow>
                                  (Return (Inl (fmt_Errorf
                                     (''command execution failed: '' @ Error err @ [CHR 0x0A]
                                        @ ''Output: '' @ output))), w2)
                              | ((output, None), w2) \<Rightarrow> (Return (Inr output), w2)))))"

section \<open>The dispatcher\<close>

text \<open>
  The content blocks of a conversation message (\<^verbatim>\<open>anthropic.ContentBlockParamUnion\<close>): text,
  a tool-use request (id, name, input), a tool result (tool-use id, content, is-error), or a
  block of another kind, kept by its type.
\<close>

datatype ContentBlockParamUnion =
    OfText string
  | OfToolUse string string RawMessage
  | OfToolResult string string bool
  | OfOther string

definition NewTextBlock :: "string \<Rightarrow> ContentBlockParamUnion" where
  "NewTextBlock text = OfText text"

definition NewToolResultBlock :: "string \<Rightarrow> string \<Rightarrow> bool \<Rightarrow> ContentBlockParamUnion" where
  "NewToolResultBlock toolUseID content isError = OfToolResult toolUseID content isError"

text \<open>A tool of the registry. The input schema is sent to the model and read nowhere else.\<close>

record 'w ToolDefinition =
  Name :: string
  Description :: string
  Function :: "'w handler"

definition executeTool ::
  "'w ToolDefinition list \<Rightarrow> string \<Rightarrow> string \<Rightarrow> RawMessage \<Rightarrow> 'w \<Rightarrow> ContentBlockParamUnion outcome \<times> 'w"
where
  "executeTool tools tid name input w =
     (case find (\<lambda>tool. ToolDefinition.Name tool = name) tools of
        None \<Rightarrow> (Return (NewToolResultBlock tid ''tool not found'' True), w)
      | Some toolDef \<Rightarrow>
          (case Function toolDef input w of
             (Panic e, w') \<Rightarrow> (Panic e, w')
           | (Return (Inl err), w') \<Rightarrow> (Return (NewToolResultBlock tid (Error err) True), w')
           | (Return (Inr response), w') \<Rightarrow> (Return (NewToolResultBlock tid response False), w')))"

definition ReadFileDefinition :: "'w lib \<Rightarrow> 'w ToolDefinition" where
  "ReadFileDefinition L =
     \<lparr>Name = ''read_file'',
      Description = ''Read the contents of a given relative file path. Use this when you want to see what's inside a file. Do not use this with directory names.'',
      Function = ReadFile L\<rparr>"

definition ListFilesDefinition :: "'w lib \<Rightarrow> 'w ToolDefinition" where
  "ListFilesDefinition L =
     \<lparr>Name = ''list_files'',
      Description = ''List files and directories at a given relative path. If no path is provided, lists files in the current directory.'',
      Function = ListFiles L\<rparr>"

definition EditFileDefinition :: "'w lib \<Rightarrow> 'w ToolDefinition" where
  "EditFileDefinition L =
     \<lparr>Name = ''edit_file'',
      Description =
        ''Make edits to a text file.'' @ [CHR 0x0A, CHR 0x0A]
          @ ''Replaces 'old_str' with 'new_str' in the given file. 'old_str' and 'new_str' MUST be different from each other.''
          @ [CHR 0x0A, CHR 0x0A]
          @ ''If the file specified with path doesn't exist, it will be created.'' @ [CHR 0x0A],
      Function = EditFile L\<rparr>"

definition CommandExecutionDefinition :: "'w lib \<Rightarrow> 'w ToolDefinition" where
  "CommandExecutionDefinition L =
     \<lparr>Name = ''command_execution'',
      Description = ''Execute commands in Bash. You can execute commands only in the current working directory.'',
      Function = CommandExecution L\<rparr>"

text \<open>
  The registry of \<^verbatim>\<open>main\<close>. The body of the fifth tool (\<^verbatim>\<open>http.Get\<close>, \<^verbatim>\<open>html.Parse\<close>) is
  not modelled: its handler is the parameter \<open>FetchUrl\<close>.
\<close>

definition FetchUrlDefinition :: "'w handler \<Rightarrow> 'w ToolDefinition" where
  "FetchUrlDefinition FetchUrl =
     \<lparr>Name = ''fetch_url'',
      Description = ''Fetch the contents of a URL. Use this to retrieve data from the web.'',
      Function = FetchUrl\<rparr>"

definition main_tools :: "'w lib \<Rightarrow> 'w handler \<Rightarrow> 'w ToolDefinition list" where
  "main_tools L FetchUrl =
     [ReadFileDefinition L, ListFilesDefinition L, EditFileDefinition L,
      CommandExecutionDefinition L, FetchUrlDefinition FetchUrl]"

section \<open>The orchestrator loop\<close>

datatype role = MessageParamRoleUser | MessageParamRoleAssistant

record MessageParam =
  Role :: role
  Content :: "ContentBlockParamUnion list"

definition NewUserMessage :: "ContentBlockParamUnion list \<Rightarrow> MessageParam" where
  "NewUserMessage blocks = \<lparr>Role = MessageParamRoleUser, Content = blocks\<rparr>"

text \<open>
  A block of the model's reply (\<^verbatim>\<open>anthropic.ContentBlockUnion\<close>): the loop reads its
  \<^verbatim>\<open>Type\<close> and, by type, \<^verbatim>\<open>Text\<close> or \<^verbatim>\<open>ID\<close>, \<^verbatim>\<open>Name\<close> and \<^verbatim>\<open>Input\<close>.
\<close>

record ContentBlockUnion =
  Type :: string
  Text :: string
  ID :: string
  Name :: string
  Input :: RawMessage

record Message =
  Content :: "ContentBlockUnion list"

text \<open>\<^verbatim>\<open>message.ToParam()\<close>: the reply as an assistant message, block by block.\<close>

definition ContentBlockUnion_ToParam :: "ContentBlockUnion \<Rightarrow> ContentBlockParamUnion" where
  "ContentBlockUnion_ToParam content =
     (if Type content = ''text'' then OfText (Text content)
      else if Type content = ''tool_use'' then
        OfToolUse (ID content) (ContentBlockUnion.Name content) (Input content)
      else OfOther (Type content))"

definition ToParam :: "Message \<Rightarrow> MessageParam" where
  "ToParam message =
     \<lparr>Role = MessageParamRoleAssistant,
      Content = map ContentBlockUnion_ToParam (Message.Content message)\<rparr>"

text \<open>
  The agent: its registry, the reader of the operator's line (\<open>(text, ok)\<close>) and the call of
  the model, which fails or replies with one message.
\<close>

record 'w Agent =
  tools :: "'w ToolDefinition list"
  getUserMessage :: "'w \<Rightarrow> (string \<times> bool) \<times> 'w"
  runInference :: "MessageParam list \<Rightarrow> 'w \<Rightarrow> (error + Message) \<times> 'w"

text \<open>The inner loop of \<^verbatim>\<open>Run\<close> over \<^verbatim>\<open>message.Content\<close>, with \<open>toolResults\<close> as it grows.\<close>

fun dispatch_content ::
  "'w Agent \<Rightarrow> ContentBlockUnion list \<Rightarrow> ContentBlockParamUnion list \<Rightarrow> 'w
     \<Rightarrow> ContentBlockParamUnion list outcome \<times> 'w"
where
  "dispatch_content a [] toolResults w = (Return toolResults, w)"
| "dispatch_content a (content # rest) toolResults w =
     (if Type content = ''text'' then dispatch_content a rest toolResults w
      else if Type content = ''tool_use'' then
        (case executeTool (tools a) (ID content) (ContentBlockUnion.Name content) (Input content) w of
           (Panic e, w') \<Rightarrow> (Panic e, w')
         | (Return result, w') \<Rightarrow> dispatch_content a rest (toolResults @ [result]) w')
      else dispatch_content a rest toolResults w)"

text \<open>
  \<^verbatim>\<open>Run\<close> as a machine. Its control points: the head of the loop, the call of the model, the
  dispatch of the reply just appended, and the end (\<^verbatim>\<open>return nil\<close> after \<^verbatim>\<open>break\<close>,
  \<^verbatim>\<open>return err\<close>, or a panic of a tool).
\<close>

datatype run_result = Returned "error option" | Panicked error

datatype control = LoopHead | Inference | Dispatch Message | Finished run_result

record 'w run_state =
  control :: control
  conversation :: "MessageParam list"
  readUserInput :: bool
  world :: 'w

definition Run_init :: "'w \<Rightarrow> 'w run_state" where
  "Run_init w = \<lparr>control = LoopHead, conversation = [], readUserInput = True, world = w\<rparr>"

definition Run_step :: "'w Agent \<Rightarrow> 'w run_state \<Rightarrow> 'w run_state" where
  "Run_step a s =
     (case control s of
        LoopHead \<Rightarrow>
          if readUserInput s then
            (case getUserMessage a (world s) of
               ((userInput, ok), w') \<Rightarrow>
                 if \<not> ok then s\<lparr>control := Finished (Returned None), world := w'\<rparr>
                 else s\<lparr>control := Inference,
                        conversation := conversation s @ [NewUserMessage [NewTextBlock userInput]],
                        world := w'\<rparr>)
          else s\<lparr>control := Inference\<rparr>
      | Inference \<Rightarrow>
          (case runInference a (conversation s) (world s) of
             (Inl err, w') \<Rightarrow> s\<lparr>control := Finished (Returned (Some err)), world := w'\<rparr>
           | (Inr message, w') \<Rightarrow>
               s\<lparr>control := Dispatch message,
                 conversation := conversation s @ [ToParam message],
                 world := w'\<rparr>)
      | Dispatch message \<Rightarrow>
          (case dispatch_content a (Message.Content message) [] (world s) of
             (Panic e, w') \<Rightarrow> s\<lparr>control := Finished (Panicked e), world := w'\<rparr>
           | (Return toolResults, w') \<Rightarrow>
               if length toolResults = 0 then
                 s\<lparr>control := LoopHead, readUserInput := True, world := w'\<rparr>
               else
                 s\<lparr>control := LoopHead, readUserInput := False,
                   conversation := conversation s @ [NewUserMessage toolResults],
                   world := w'\<rparr>)
      | Finished r \<Rightarrow> s)"

text \<open>The states \<^verbatim>\<open>Run\<close> passes through when it starts in the world \<open>w0\<close>.\<close>

inductive reachable :: "'w Agent \<Rightarrow> 'w \<Rightarrow> 'w run_state \<Rightarrow> bool" for a :: "'w Agent" and w0 :: 'w where
  reachable_init: "reachable a w0 (Run_init w0)"
| reachable_step: "reachable a w0 s \<Longrightarrow> reachable a w0 (Run_step a s)"

text \<open>
  \<^verbatim>\<open>Run\<close> itself, for at most \<open>n\<close> steps of the machine: \<open>None\<close> when it has not ended by then.
\<close>

fun Run_from :: "'w Agent \<Rightarrow> nat \<Rightarrow> 'w run_state \<Rightarrow> (run_result \<times> 'w run_state) option" where
  "Run_from a 0 s = (case control s of Finished r \<Rightarrow> Some (r, s) | _ \<Rightarrow> None)"
| "Run_from a (Suc n) s =
     (case control s of Finished r \<Rightarrow> Some (r, s) | _ \<Rightarrow> Run_from a n (Run_step a s))"

definition Run :: "'w Agent \<Rightarrow> nat \<Rightarrow> 'w \<Rightarrow> (run_result \<times> 'w run_state) option" where
  "Run a n w = Run_from a n (Run_init w)"

section \<open>The turns of the conversation\<close>

text \<open>
  The three kinds of turn, read off a message of the conversation: the operator's text, the
  model's reply, and a batch of tool results.
\<close>

fun is_tool_result :: "ContentBlockParamUnion \<Rightarrow> bool" where
  "is_tool_result (OfToolResult i c e) = True"
| "is_tool_result b = False"

fun isUserTurn :: "MessageParam \<Rightarrow> bool" where
  "isUserTurn m =
     (Role m = MessageParamRoleUser \<and> (case MessageParam.Content m of [OfText t] \<Rightarrow> True | _ \<Rightarrow> False))"

fun isAssistantTurn :: "MessageParam \<Rightarrow> bool" where
  "isAssistantTurn m = (Role m = MessageParamRoleAssistant)"

fun isToolResultTurn :: "MessageParam \<Rightarrow> bool" where
  "isToolResultTurn m =
     (Role m = MessageParamRoleUser \<and> MessageParam.Content m \<noteq> []
        \<and> list_all is_tool_result (MessageParam.Content m))"

text \<open>
  A message of the user side that holds nothing but tool results, be they none: what the
  loop would append as a turn of tool results if it did so for a reply without tool use.
\<close>

fun holds_only_tool_results :: "MessageParam \<Rightarrow> bool" where
  "holds_only_tool_results m =
     (Role m = MessageParamRoleUser \<and> list_all is_tool_result (MessageParam.Content m))"

text \<open>The invocation ids of the tool-use segments of a turn, and of its tool results, in order.\<close>

fun tool_use_ids :: "ContentBlockParamUnion list \<Rightarrow> string list" where
  "tool_use_ids [] = []"
| "tool_use_ids (OfToolUse i n inp # bs) = i # tool_use_ids bs"
| "tool_use_ids (b # bs) = tool_use_ids bs"

fun tool_result_ids :: "ContentBlockParamUnion list \<Rightarrow> string list" where
  "tool_result_ids [] = []"
| "tool_result_ids (OfToolResult i c e # bs) = i # tool_result_ids bs"
| "tool_result_ids (b # bs) = tool_result_ids bs"

section \<open>A small world to run the program in\<close>

text \<open>
  One instance of the libraries, for running the definitions on concrete inputs: a tree of
  files below the working directory, the operator's answers, the model's replies and a shell
  that records what it is asked to run. Paths are relative, their elements separated by
  \<open>/\<close>; empty elements and \<open>.\<close> are skipped.
\<close>

datatype node = File string | Dir "(string \<times> node) list"

record world =
  cwd :: node
  stdin_lines :: "string list"
  confirmations :: "string list"
  replies :: "(error + Message) list"
  shell_log :: "string list"

fun split_slash :: "string \<Rightarrow> string \<Rightarrow> string list" where
  "split_slash acc [] = [acc]"
| "split_slash acc (c # cs) =
     (if c = CHR ''/'' then acc # split_slash [] cs else split_slash (acc @ [c]) cs)"

definition elements :: "string \<Rightarrow> string list" where
  "elements p = filter (\<lambda>e. e \<noteq> [] \<and> e \<noteq> ''.'') (split_slash [] p)"

datatype found = Missing | NotADirectory | Found node

fun resolve :: "node \<Rightarrow> string list \<Rightarrow> found" where
  "resolve t [] = Found t"
| "resolve (File c) (e # es) = NotADirectory"
| "resolve (Dir entries) (e # es) =
     (case map_of entries e of None \<Rightarrow> Missing | Some t \<Rightarrow> resolve t es)"

fun set_entry :: "(string \<times> node) list \<Rightarrow> string \<Rightarrow> node \<Rightarrow> (string \<times> node) list" where
  "set_entry [] e t = [(e, t)]"
| "set_entry ((k, v) # entries) e t =
     (if k = e then (e, t) # entries
      else if e < k then (e, t) # (k, v) # entries
      else (k, v) # set_entry entries e t)"

text \<open>Writing a file: the directory must be there and the name must not be a directory.\<close>

fun write_node :: "node \<Rightarrow> string list \<Rightarrow> string \<Rightarrow> node option" where
  "write_node (File c) [] content = Some (File content)"
| "write_node (Dir entries) [] content = None"
| "write_node (File c) (e # es) content = None"
| "write_node (Dir entries) (e # es) content =
     (case map_of entries e of
        None \<Rightarrow> (if es = [] then Some (Dir (set_entry entries e (File content))) else None)
      | Some t \<Rightarrow>
          (case write_node t es content of
             None \<Rightarrow> None
           | Some t' \<Rightarrow> Some (Dir (set_entry entries e t'))))"

fun mkdir_node :: "node \<Rightarrow> string list \<Rightarrow> node option" where
  "mkdir_node (Dir entries) [] = Some (Dir entries)"
| "mkdir_node (File c) es = None"
| "mkdir_node (Dir entries) (e # es) =
     (case mkdir_node (case map_of entries e of None \<Rightarrow> Dir [] | Some t \<Rightarrow> t) es of
        None \<Rightarrow> None
      | Some t' \<Rightarrow> Some (Dir (set_entry entries e t')))"

definition ex_ReadFile :: "string \<Rightarrow> world \<Rightarrow> error + string" where
  "ex_ReadFile p w =
     (if p = [] then Inl (NotExist ''open : no such file or directory'')
      else case resolve (cwd w) (elements p) of
             Missing \<Rightarrow> Inl (NotExist (''open '' @ p @ '': no such file or directory''))
           | NotADirectory \<Rightarrow> Inl (Failure (''open '' @ p @ '': not a directory''))
           | Found (Dir entries) \<Rightarrow> Inl (Failure (''read '' @ p @ '': is a directory''))
           | Found (File content) \<Rightarrow> Inr content)"

definition ex_WriteFile :: "string \<Rightarrow> string \<Rightarrow> nat \<Rightarrow> world \<Rightarrow> error option \<times> world" where
  "ex_WriteFile p content perm w =
     (case write_node (cwd w) (elements p) content of
        None \<Rightarrow> (Some (Failure (''open '' @ p @ '': cannot create file'')), w)
      | Some t \<Rightarrow> (None, w\<lparr>cwd := t\<rparr>))"

definition ex_MkdirAll :: "string \<Rightarrow> nat \<Rightarrow> world \<Rightarrow> error option \<times> world" where
  "ex_MkdirAll p perm w =
     (case mkdir_node (cwd w) (elements p) of
        None \<Rightarrow> (Some (Failure (''mkdir '' @ p @ '': not a directory'')), w)
      | Some t \<Rightarrow> (None, w\<lparr>cwd := t\<rparr>))"

fun last_slash :: "string \<Rightarrow> string \<Rightarrow> string option" where
  "last_slash acc [] = None"
| "last_slash acc (c # cs) =
     (case last_slash (acc @ [c]) cs of
        Some d \<Rightarrow> Some d
      | None \<Rightarrow> (if c = CHR ''/'' then Some acc else None))"

definition ex_Dir :: "string \<Rightarrow> string" where
  "ex_Dir p = (case last_slash [] p of None \<Rightarrow> ''.'' | Some d \<Rightarrow> (if d = [] then ''/'' else d))"

definition join_path :: "string \<Rightarrow> string \<Rightarrow> string" where
  "join_path p e = (if p = ''.'' then e else p @ ''/'' @ e)"

text \<open>\<^verbatim>\<open>filepath.Walk\<close> visits a directory, then each of its entries in turn with all below it.\<close>

fun walk_node :: "string \<Rightarrow> node \<Rightarrow> walk_call list"
  and walk_entries :: "string \<Rightarrow> (string \<times> node) list \<Rightarrow> walk_call list" where
  "walk_node p (File content) = [WalkCall p False None]"
| "walk_node p (Dir entries) = WalkCall p True None # walk_entries p entries"
| "walk_entries p [] = []"
| "walk_entries p ((e, t) # entries) = walk_node (join_path p e) t @ walk_entries p entries"

definition ex_Walk :: "string \<Rightarrow> world \<Rightarrow> walk_call list" where
  "ex_Walk root w =
     (case resolve (cwd w) (elements root) of
        Found t \<Rightarrow> walk_node root t
      | _ \<Rightarrow> [WalkCall root False (Some (NotExist (''lstat '' @ root @ '': no such file or directory'')))])"

definition ex_Rel :: "string \<Rightarrow> string \<Rightarrow> error + string" where
  "ex_Rel base target =
     (if target = base then Inr ''.''
      else if base = ''.'' then Inr target
      else if strings_HasPrefix target (base @ ''/'') then Inr (drop (length base + 1) target)
      else Inl (Failure (''Rel: can't make '' @ target @ '' relative to '' @ base)))"

text \<open>The operator's next line at the prompt; no line when the input has ended.\<close>

definition ex_Stdin_line :: "world \<Rightarrow> string \<times> world" where
  "ex_Stdin_line w =
     (case confirmations w of
        [] \<Rightarrow> ([], w)
      | c # cs \<Rightarrow> (c, w\<lparr>confirmations := cs\<rparr>))"

text \<open>The shell knows \<^verbatim>\<open>echo\<close>; anything else is a command it does not find.\<close>

definition ex_CombinedOutput :: "string \<Rightarrow> world \<Rightarrow> (string \<times> error option) \<times> world" where
  "ex_CombinedOutput c w =
     ((if strings_HasPrefix c ''echo '' then (drop 5 c @ [CHR 0x0A], None)
       else (''bash: line 1: '' @ c @ '': command not found'' @ [CHR 0x0A],
             Some (Failure ''exit status 127''))),
      w\<lparr>shell_log := shell_log w @ [c]\<rparr>)"

text \<open>
  The decoders, on the inputs used below. A number where the struct has a string is an
  \<^verbatim>\<open>UnmarshalTypeError\<close>; anything else not listed is taken as a syntax error.
\<close>

definition decode :: "(RawMessage \<times> (error + 'a)) list \<Rightarrow> RawMessage \<Rightarrow> error + 'a" where
  "decode table input =
     (case map_of table input of
        Some r \<Rightarrow> r
      | None \<Rightarrow> Inl (Failure ''unexpected end of JSON input''))"

definition ex_Unmarshal_ReadFileInput :: "RawMessage \<Rightarrow> error + ReadFileInput" where
  \<open>ex_Unmarshal_ReadFileInput =
     decode
       [(''{"path": "notes.txt"}'', Inr \<lparr>ReadFileInput.Path = ''notes.txt''\<rparr>),
        (''{"path": 5}'',
         Inl (Failure ''json: cannot unmarshal number into Go struct field ReadFileInput.path of type string''))]\<close>

definition ex_Unmarshal_ListFilesInput :: "RawMessage \<Rightarrow> error + ListFilesInput" where
  \<open>ex_Unmarshal_ListFilesInput =
     decode
       [(''{}'', Inr \<lparr>ListFilesInput.Path = []\<rparr>),
        (''{"path": ""}'', Inr \<lparr>ListFilesInput.Path = []\<rparr>),
        (''{"path": "src"}'', Inr \<lparr>ListFilesInput.Path = ''src''\<rparr>)]\<close>

definition ex_Unmarshal_EditFileInput :: "RawMessage \<Rightarrow> error + EditFileInput" where
  \<open>ex_Unmarshal_EditFileInput =
     decode
       [(''{"path": "new.txt", "old_str": "", "new_str": "hello"}'',
         Inr \<lparr>EditFileInput.Path = ''new.txt'', OldStr = [], NewStr = ''hello''\<rparr>),
        (''{"path": "docs/new.txt", "old_str": "", "new_str": "hello"}'',
         Inr \<lparr>EditFileInput.Path = ''docs/new.txt'', OldStr = [], NewStr = ''hello''\<rparr>),
        (''{"path": "new.txt", "old_str": "", "new_str": ""}'',
         Inr \<lparr>EditFileInput.Path = ''new.txt'', OldStr = [], NewStr = []\<rparr>),
        (''{"path": "notes.txt", "old_str": "a", "new_str": "a"}'',
         Inr \<lparr>EditFileInput.Path = ''notes.txt'', OldStr = ''a'', NewStr = ''a''\<rparr>),
        (''{"path": "notes.txt", "old_str": "zz", "new_str": "y"}'',
         Inr \<lparr>EditFileInput.Path = ''notes.txt'', OldStr = ''zz'', NewStr = ''y''\<rparr>),
        (''{"path": "notes.txt", "old_str": "a", "new_str": "o"}'',
         Inr \<lparr>EditFileInput.Path = ''notes.txt'', OldStr = ''a'', NewStr = ''o''\<rparr>)]\<close>

definition ex_Unmarshal_CommandExecutionInput :: "RawMessage \<Rightarrow> error + CommandExecutionInput" where
  \<open>ex_Unmarshal_CommandExecutionInput =
     decode
       [(''{"command": "echo hello"}'', Inr \<lparr>Command = ''echo hello''\<rparr>),
        (''{"command": "echo confirm"}'', Inr \<lparr>Command = ''echo confirm''\<rparr>),
        (''{"command": "rm"}'', Inr \<lparr>Command = ''rm''\<rparr>),
        (''{"command": "SuDo ls"}'', Inr \<lparr>Command = ''SuDo ls''\<rparr>),
        (''{"command": ""}'', Inr \<lparr>Command = []\<rparr>)]\<close>

text \<open>
  The names of the small world are plain (letters, digits, \<open>.\<close>, \<open>/\<close>, \<open>_\<close>), for which the JSON
  string literal is the name between double quotes; its lines are ASCII.
\<close>

definition ex_lib :: "world lib" where
  "ex_lib =
     \<lparr>Unmarshal_ReadFileInput = ex_Unmarshal_ReadFileInput,
      Unmarshal_ListFilesInput = ex_Unmarshal_ListFilesInput,
      Unmarshal_EditFileInput = ex_Unmarshal_EditFileInput,
      Unmarshal_CommandExecutionInput = ex_Unmarshal_CommandExecutionInput,
      json_string = quoted,
      os_ReadFile = ex_ReadFile,
      os_WriteFile = ex_WriteFile,
      os_MkdirAll = ex_MkdirAll,
      path_Dir = ex_Dir,
      filepath_Walk = ex_Walk,
      filepath_Rel = ex_Rel,
      unicode_ToLower = (\<lambda>s. s),
      utf8_DecodeRuneInString = (\<lambda>s. 1),
      os_Stdin_line = ex_Stdin_line,
      unicode_first_word = (\<lambda>s. s),
      exec_CombinedOutput = ex_CombinedOutput\<rparr>"

definition ex_getUserMessage :: "world \<Rightarrow> (string \<times> bool) \<times> world" where
  "ex_getUserMessage w =
     (case stdin_lines w of
        [] \<Rightarrow> (([], False), w)
      | l # ls \<Rightarrow> ((l, True), w\<lparr>stdin_lines := ls\<rparr>))"

definition ex_runInference :: "MessageParam list \<Rightarrow> world \<Rightarrow> (error + Message) \<times> world" where
  "ex_runInference conv w =
     (case replies w of
        [] \<Rightarrow> (Inl (Failure ''503 Service Unavailable''), w)
      | r # rs \<Rightarrow> (r, w\<lparr>replies := rs\<rparr>))"

text \<open>The fifth handler of the small world: a fetch that is refused, as one with no url is.\<close>

definition ex_FetchUrl :: "world handler" where
  "ex_FetchUrl input w = (Return (Inl (fmt_Errorf ''url cannot be empty'')), w)"

definition ex_agent :: "world Agent" where
  "ex_agent =
     \<lparr>tools = main_tools ex_lib ex_FetchUrl,
      getUserMessage = ex_getUserMessage,
      runInference = ex_runInference\<rparr>"

text \<open>A working directory with one file and one directory that holds a file.\<close>

definition ex_cwd :: node where
  "ex_cwd = Dir [(''notes.txt'', File ''banana''), (''src'', Dir [(''main.go'', File ''package main'')])]"

definition ex_world :: world where
  "ex_world =
     \<lparr>cwd = ex_cwd, stdin_lines = [], confirmations = [], replies = [], shell_log = []\<rparr>"

text \<open>
  A session: the operator asks for the files, the model calls \<^verbatim>\<open>list_files\<close> with no path,
  then answers in text; the operator's input ends.
\<close>

definition ex_reply_call :: Message where
  \<open>ex_reply_call =
     \<lparr>Message.Content =
        [\<lparr>Type = ''tool_use'', Text = [], ID = ''toolu_1'', Name = ''list_files'', Input = ''{}''\<rparr>]\<rparr>\<close>

definition ex_reply_answer :: Message where
  \<open>ex_reply_answer =
     \<lparr>Message.Content =
        [\<lparr>Type = ''text'', Text = ''There are two entries.'', ID = [], Name = [], Input = []\<rparr>]\<rparr>\<close>

definition ex_session :: world where
  \<open>ex_session =
     ex_world\<lparr>stdin_lines := [''list files in .''], replies := [Inr ex_reply_call, Inr ex_reply_answer]\<rparr>\<close>

text \<open>The conversation of that session when the loop asks the operator again.\<close>

definition ex_session_conversation :: "MessageParam list" where
  \<open>ex_session_conversation =
     [\<lparr>Role = MessageParamRoleUser, Content = [OfText ''list files in .'']\<rparr>,
      \<lparr>Role = MessageParamRoleAssistant, Content = [OfToolUse ''toolu_1'' ''list_files'' ''{}'']\<rparr>,
      \<lparr>Role = MessageParamRoleUser,
        Content = [OfToolResult ''toolu_1'' ''["notes.txt","src/","src/main.go"]'' False]\<rparr>,
      \<lparr>Role = MessageParamRoleAssistant, Content = [OfText ''There are two entries.'']\<rparr>]\<close>

definition ex_session_state :: "nat \<Rightarrow> world run_state" where
  "ex_session_state n =
     (if n = 0 then Run_init ex_session
      else if n = 1 then
        \<lparr>control = Inference, conversation = take 1 ex_session_conversation, readUserInput = True,
         world = ex_session\<lparr>stdin_lines := []\<rparr>\<rparr>
      else if n = 2 then
        \<lparr>control = Dispatch ex_reply_call, conversation = take 2 ex_session_conversation,
         readUserInput = True,
         world = ex_session\<lparr>stdin_lines := [], replies := [Inr ex_reply_answer]\<rparr>\<rparr>
      else if n = 3 then
        \<lparr>control = LoopHead, conversation = take 3 ex_session_conversation, readUserInput = False,
         world = ex_session\<lparr>stdin_lines := [], replies := [Inr ex_reply_answer]\<rparr>\<rparr>
      else if n = 4 then
        \<lparr>control = Inference, conversation = take 3 ex_session_conversation, readUserInput = False,
         world = ex_session\<lparr>stdin_lines := [], replies := [Inr ex_reply_answer]\<rparr>\<rparr>
      else if n = 5 then
        \<lparr>control = Dispatch ex_reply_answer, conversation = ex_session_conversation,
         readUserInput = False, world = ex_session\<lparr>stdin_lines := [], replies := []\<rparr>\<rparr>
      else
        \<lparr>control = LoopHead, conversation = ex_session_conversation, readUserInput = True,
         world = ex_session\<lparr>stdin_lines := [], replies := []\<rparr>\<rparr>)"

section \<open>Notions the statements use\<close>

text \<open>A command passes the guardrails when none of the checks of \<open>CommandExecution\<close> rejects it.\<close>

definition passes_guardrails :: "'w lib \<Rightarrow> string \<Rightarrow> bool" where
  "passes_guardrails L command =
     (let lowerCmd = strings_ToLower L command
      in command \<noteq> []
         \<and> list_all (\<lambda>d. \<not> strings_Contains lowerCmd d) disallowed
         \<and> \<not> strings_Contains lowerCmd ''cd ''
         \<and> length command \<le> 256
         \<and> \<not> strings_Contains lowerCmd ''/''
         \<and> \<not> strings_Contains lowerCmd ''..'')"

text \<open>
  What a walk without errors lists: every path it visits but the root \<open>.\<close>, a directory
  with a \<open>/\<close> after it.
\<close>

fun listed :: "walk_call \<Rightarrow> string" where
  "listed (WalkCall path isDir err) = (if isDir then path @ ''/'' else path)"

fun visited :: "walk_call \<Rightarrow> string" where
  "visited (WalkCall path isDir err) = path"

definition walk_listing :: "walk_call list \<Rightarrow> string list" where
  "walk_listing calls = map listed (filter (\<lambda>c. visited c \<noteq> ''.'') calls)"

text \<open>The immediate entries of a directory of the small world, written as \<open>ListFiles\<close> writes them.\<close>

fun immediate_entries :: "node \<Rightarrow> string list" where
  "immediate_entries (File content) = []"
| "immediate_entries (Dir entries) =
     map (\<lambda>(e, t). case t of Dir es \<Rightarrow> e @ ''/'' | File c \<Rightarrow> e) entries"

text \<open>
  The order of turns that the loop keeps: the operator's text first; after a reply without
  tool-use segments the operator's text; after a reply with tool-use segments the results
  for them, with the same ids in the same order; after any message of the user side a reply.
\<close>

definition turn_follows :: "MessageParam option \<Rightarrow> MessageParam \<Rightarrow> bool" where
  "turn_follows prev m =
     (case prev of
        None \<Rightarrow> isUserTurn m
      | Some p \<Rightarrow>
          if isAssistantTurn p then
            (if tool_use_ids (MessageParam.Content p) = [] then isUserTurn m
             else isToolResultTurn m
                  \<and> tool_result_ids (MessageParam.Content m) = tool_use_ids (MessageParam.Content p))
          else isAssistantTurn m)"

fun chain :: "('a option \<Rightarrow> 'a \<Rightarrow> bool) \<Rightarrow> 'a option \<Rightarrow> 'a list \<Rightarrow> bool" where
  "chain R prev [] = True"
| "chain R prev (m # ms) = (R prev m \<and> chain R (Some m) ms)"

text \<open>What holds of the conversation at each control point of \<open>Run\<close>.\<close>

definition Run_invariant :: "'w run_state \<Rightarrow> bool" where
  "Run_invariant s =
     (chain turn_follows None (conversation s)
      \<and> (case control s of
            LoopHead \<Rightarrow>
              if readUserInput s then
                (conversation s = []
                 \<or> (isAssistantTurn (last (conversation s))
                     \<and> tool_use_ids (MessageParam.Content (last (conversation s))) = []))
              else (conversation s \<noteq> [] \<and> \<not> isAssistantTurn (last (conversation s)))
          | Inference \<Rightarrow> conversation s \<noteq> [] \<and> \<not> isAssistantTurn (last (conversation s))
          | Dispatch message \<Rightarrow> conversation s \<noteq> [] \<and> last (conversation s) = ToParam message
          | Finished r \<Rightarrow> True))"

section \<open>Substrings and replacement\<close>

lemma HasPrefix_iff: "strings_HasPrefix s p \<longleftrightarrow> (\<exists>q. s = p @ q)"
  by (induction s p rule: strings_HasPrefix.induct) auto

lemma Contains_iff: "strings_Contains s sub \<longleftrightarrow> (\<exists>p q. s = p @ sub @ q)"
proof (induction s)
  case Nil
  then show ?case by auto
next
  case (Cons c s)
  show ?case
  proof
    assume "strings_Contains (c # s) sub"
    then consider "strings_HasPrefix (c # s) sub" | "strings_Contains s sub" by auto
    then show "\<exists>p q. c # s = p @ sub @ q"
    proof cases
      case 1
      then obtain q where "c # s = sub @ q" by (auto simp: HasPrefix_iff)
      then have "c # s = [] @ sub @ q" by simp
      then show ?thesis by blast
    next
      case 2
      then obtain p q where "s = p @ sub @ q" using Cons.IH by auto
      then have "c # s = (c # p) @ sub @ q" by simp
      then show ?thesis by blast
    qed
  next
    assume "\<exists>p q. c # s = p @ sub @ q"
    then obtain p q where pq: "c # s = p @ sub @ q" by blast
    show "strings_Contains (c # s) sub"
    proof (cases p)
      case Nil
      then have "strings_HasPrefix (c # s) sub" using pq by (auto simp: HasPrefix_iff)
      then show ?thesis by simp
    next
      case (Cons a p')
      then have "s = p' @ sub @ q" using pq by simp
      then have "strings_Contains s sub" using Cons.IH by blast
      then show ?thesis by simp
    qed
  qed
qed

lemma replace_matches_absent:
  "\<not> strings_Contains s old \<Longrightarrow> replace_matches s old new = s"
proof (induction s old new rule: replace_matches.induct)
  case (1 s old new)
  show ?case
  proof (cases "s = [] \<or> old = []")
    case True
    then show ?thesis by (simp add: replace_matches.simps)
  next
    case False
    then obtain c t where s: "s = c # t" by (cases s) auto
    from "1.prems" s have np: "\<not> strings_HasPrefix s old" and nt: "\<not> strings_Contains t old"
      by auto
    have "replace_matches (tl s) old new = tl s"
      using "1.IH"(2) False np nt s by simp
    then show ?thesis
      using False np s by (subst replace_matches.simps) simp
  qed
qed

lemma Replace_all_absent:
  "old \<noteq> [] \<Longrightarrow> \<not> strings_Contains s old \<Longrightarrow> strings_Replace_all L s old new = s"
  by (simp add: strings_Replace_all_def replace_matches_absent)

lemma replace_matches_length:
  "length (replace_matches s old new) + count_matches s old * length old
     = length s + count_matches s old * length new"
proof (induction s old new rule: replace_matches.induct)
  case (1 s old new)
  show ?case
  proof (cases "s = [] \<or> old = []")
    case True
    then show ?thesis by (simp add: replace_matches.simps count_matches.simps)
  next
    case False
    show ?thesis
    proof (cases "strings_HasPrefix s old")
      case True
      then obtain q where q: "s = old @ q" by (auto simp: HasPrefix_iff)
      have ih: "length (replace_matches (drop (length old) s) old new) + count_matches (drop (length old) s) old * length old
        = length (drop (length old) s) + count_matches (drop (length old) s) old * length new"
        using "1.IH"(1) False True by simp
      have r: "replace_matches s old new = new @ replace_matches (drop (length old) s) old new"
        using False True by (subst replace_matches.simps) simp
      have c: "count_matches s old = Suc (count_matches (drop (length old) s) old)"
        using False True by (subst count_matches.simps) simp
      define d where "d = length (drop (length old) s)"
      have ls: "length s = length old + d" using q by (simp add: d_def)
      show ?thesis using ih ls unfolding r c d_def [symmetric] by (simp add: algebra_simps)
    next
      case np: False
      obtain c t where s: "s = c # t" using False by (cases s) auto
      have ih: "length (replace_matches (tl s) old new) + count_matches (tl s) old * length old
        = length (tl s) + count_matches (tl s) old * length new"
        using "1.IH"(2) False np by simp
      have r: "replace_matches s old new = hd s # replace_matches (tl s) old new"
        using False np by (subst replace_matches.simps) simp
      have c: "count_matches s old = count_matches (tl s) old"
        using False np by (subst count_matches.simps) simp
      define d where "d = length (tl s)"
      have ls: "length s = Suc d" using s by (simp add: d_def)
      show ?thesis using ih ls unfolding r c d_def [symmetric] by simp
    qed
  qed
qed

lemma count_matches_pos:
  "old \<noteq> [] \<Longrightarrow> strings_Contains s old \<Longrightarrow> 0 < count_matches s old"
proof (induction s old rule: count_matches.induct)
  case (1 s old)
  from "1.prems" have ne: "s \<noteq> []" by (cases s) auto
  then obtain c t where s: "s = c # t" by (cases s) auto
  show ?case
  proof (cases "strings_HasPrefix s old")
    case True
    then show ?thesis using ne "1.prems"(1) by (subst count_matches.simps) simp
  next
    case False
    then have "strings_Contains (tl s) old" using "1.prems"(2) s by auto
    then have "0 < count_matches (tl s) old" using "1.IH"(2) ne "1.prems"(1) False by simp
    then show ?thesis using ne "1.prems"(1) False by (subst count_matches.simps) simp
  qed
qed

lemma replace_matches_changes:
  assumes "old \<noteq> []" "old \<noteq> new" "strings_Contains s old"
  shows "replace_matches s old new \<noteq> s"
  using assms
proof (induction s old new rule: replace_matches.induct)
  case (1 s old new)
  from "1.prems" have ne: "s \<noteq> []" by (cases s) auto
  then obtain c t where s: "s = c # t" by (cases s) auto
  show ?case
  proof (cases "strings_HasPrefix s old")
    case True
    then obtain q where q: "s = old @ q" by (auto simp: HasPrefix_iff)
    have r: "replace_matches s old new = new @ replace_matches q old new"
      using ne "1.prems"(1) True q by (subst replace_matches.simps) simp
    show ?thesis
    proof (cases "length new = length old")
      case True
      show ?thesis
      proof
        assume "replace_matches s old new = s"
        then have "new @ replace_matches q old new = old @ q" using r q by simp
        then have "new = old" using True by (metis append_eq_append_conv)
        then show False using "1.prems"(2) by simp
      qed
    next
      case False
      have "0 < count_matches s old" using count_matches_pos "1.prems" by blast
      then have "count_matches s old * length old \<noteq> count_matches s old * length new"
        using False by simp
      then have "length (replace_matches s old new) \<noteq> length s"
        using replace_matches_length [of s old new] by linarith
      then show ?thesis by auto
    qed
  next
    case False
    then have ct: "strings_Contains (tl s) old" using "1.prems"(3) s by auto
    have r: "replace_matches s old new = hd s # replace_matches (tl s) old new"
      using ne "1.prems"(1) False by (subst replace_matches.simps) simp
    have "replace_matches (tl s) old new \<noteq> tl s"
      using "1.IH"(2) ne "1.prems"(1,2) False ct by simp
    then show ?thesis using r s by auto
  qed
qed

text \<open>
  What \<open>replace_matches\<close> does with the first match: the text before it is kept, the match
  becomes \<open>new\<close>, and the replacement goes on behind the match. With \<open>replace_matches_absent\<close>
  this says that every match, from the left and without overlap, is replaced.
\<close>

lemma replace_matches_first:
  assumes "old \<noteq> []" and "\<not> strings_Contains (p @ butlast old) old"
  shows "replace_matches (p @ old @ r) old new = p @ new @ replace_matches r old new"
  using assms(2)
proof (induction p)
  case Nil
  have "strings_HasPrefix (old @ r) old" by (simp add: HasPrefix_iff)
  then show ?case using assms(1) by (subst replace_matches.simps) simp
next
  case (Cons c p)
  have np: "\<not> strings_HasPrefix ((c # p) @ old @ r) old"
  proof
    assume "strings_HasPrefix ((c # p) @ old @ r) old"
    then obtain q where q: "(c # p) @ old @ r = old @ q" by (auto simp: HasPrefix_iff)
    have len: "length old \<le> length ((c # p) @ butlast old)" by simp
    have "take (length old) ((c # p) @ old @ r) = old" using q by simp
    moreover have "(c # p) @ old @ r = ((c # p) @ butlast old) @ ([last old] @ r)"
      using assms(1) by simp
    ultimately have "take (length old) ((c # p) @ butlast old) = old"
      using len by (metis append_eq_conv_conj append_take_drop_id take_append le_refl take_all
          diff_is_0_eq take_0 append_Nil2)
    then have "(c # p) @ butlast old = old @ drop (length old) ((c # p) @ butlast old)"
      by (metis append_take_drop_id)
    then have "strings_HasPrefix ((c # p) @ butlast old) old"
      unfolding HasPrefix_iff by blast
    then show False using Cons.prems by simp
  qed
  have nc: "\<not> strings_Contains (p @ butlast old) old" using Cons.prems by simp
  have "replace_matches ((c # p) @ old @ r) old new
          = c # replace_matches (p @ old @ r) old new"
    using np assms(1) by (subst replace_matches.simps) simp
  then show ?case using Cons.IH [OF nc] by simp
qed

lemma strings_ToLower_ascii:
  "list_all (\<lambda>c. of_char c < (128::nat)) s \<Longrightarrow> strings_ToLower L s = map ascii_lower s"
  by (simp add: strings_ToLower_def)

section \<open>The dispatcher: tools that are not registered, tools that panic\<close>

lemma find_registry_None:
  "name \<notin> ToolDefinition.Name ` set ts \<Longrightarrow> find (\<lambda>tool. ToolDefinition.Name tool = name) ts = None"
  by (induction ts) auto

lemma executeTool_unregistered:
  "name \<notin> ToolDefinition.Name ` set ts \<Longrightarrow>
   executeTool ts tid name input w = (Return (OfToolResult tid ''tool not found'' True), w)"
  by (simp add: executeTool_def find_registry_None NewToolResultBlock_def)

lemma dispatch_content_unregistered:
  "\<forall>c \<in> set cs. Type c = ''tool_use'' \<longrightarrow> ContentBlockUnion.Name c \<notin> ToolDefinition.Name ` set (tools a) \<Longrightarrow>
   dispatch_content a cs acc w =
     (Return (acc @ map (\<lambda>c. OfToolResult (ID c) ''tool not found'' True)
                      (filter (\<lambda>c. Type c = ''tool_use'') cs)), w)"
proof (induction cs arbitrary: acc)
  case Nil
  then show ?case by simp
next
  case (Cons c cs)
  then show ?case by (simp add: executeTool_unregistered)
qed

lemma ex_registry_names:
  "ToolDefinition.Name ` set (tools ex_agent)
     = {''read_file'', ''list_files'', ''edit_file'', ''command_execution'', ''fetch_url''}"
  by (auto simp add: ex_agent_def main_tools_def ReadFileDefinition_def ListFilesDefinition_def
      EditFileDefinition_def CommandExecutionDefinition_def FetchUrlDefinition_def)

text \<open>
  C4. For a tool name that no tool of the registry has, and any input, \<open>executeTool\<close>
  returns the tool result with the request's id, the message \<open>tool not found\<close> and the
  error flag set, and changes nothing. The loop goes on: when every tool-use block of the
  reply names such a tool, the dispatch step appends these results as one message, when
  there is one, and is back at the head of the loop.
\<close>

theorem unregistered_tool_is_reported:
  "(name \<notin> ToolDefinition.Name ` set (tools a)
      \<longrightarrow> executeTool (tools a) tid name input w
            = (Return (NewToolResultBlock tid ''tool not found'' True), w))
   \<and> (control s = Dispatch message
        \<and> (\<forall>c \<in> set (Message.Content message).
              Type c = ''tool_use'' \<longrightarrow> ContentBlockUnion.Name c \<notin> ToolDefinition.Name ` set (tools a))
      \<longrightarrow> Run_step a s
            = (let toolResults =
                     map (\<lambda>c. NewToolResultBlock (ID c) ''tool not found'' True)
                       (filter (\<lambda>c. Type c = ''tool_use'') (Message.Content message))
               in if toolResults = [] then s\<lparr>control := LoopHead, readUserInput := True\<rparr>
                  else s\<lparr>control := LoopHead, readUserInput := False,
                         conversation := conversation s @ [NewUserMessage toolResults]\<rparr>))"
proof (intro conjI impI)
  assume "name \<notin> ToolDefinition.Name ` set (tools a)"
  then show "executeTool (tools a) tid name input w
           = (Return (NewToolResultBlock tid ''tool not found'' True), w)"
    by (simp add: executeTool_unregistered NewToolResultBlock_def)
next
  assume h: "control s = Dispatch message
        \<and> (\<forall>c \<in> set (Message.Content message).
              Type c = ''tool_use'' \<longrightarrow> ContentBlockUnion.Name c \<notin> ToolDefinition.Name ` set (tools a))"
  then have d: "dispatch_content a (Message.Content message) [] (world s) =
     (Return ([] @ map (\<lambda>c. OfToolResult (ID c) ''tool not found'' True)
                      (filter (\<lambda>c. Type c = ''tool_use'') (Message.Content message))), world s)"
    by (intro dispatch_content_unregistered) simp
  show "Run_step a s
            = (let toolResults =
                     map (\<lambda>c. NewToolResultBlock (ID c) ''tool not found'' True)
                       (filter (\<lambda>c. Type c = ''tool_use'') (Message.Content message))
               in if toolResults = [] then s\<lparr>control := LoopHead, readUserInput := True\<rparr>
                  else s\<lparr>control := LoopHead, readUserInput := False,
                         conversation := conversation s @ [NewUserMessage toolResults]\<rparr>)"
    using h d by (simp add: Run_step_def NewToolResultBlock_def Let_def)
qed

text \<open>The model asks for a tool \<open>launch\<close>, which the registry of \<open>main\<close> does not have.\<close>

theorem unregistered_tool_is_reported_witness:
  \<open>executeTool (tools ex_agent) ''toolu_1'' ''launch'' ''{}'' ex_world
     = (Return (OfToolResult ''toolu_1'' ''tool not found'' True), ex_world)
   \<and> Run_step ex_agent
        \<lparr>control = Dispatch \<lparr>Message.Content =
             [\<lparr>Type = ''tool_use'', Text = [], ID = ''toolu_1'', Name = ''launch'', Input = ''{}''\<rparr>]\<rparr>,
         conversation = [], readUserInput = True, world = ex_world\<rparr>
     = \<lparr>control = LoopHead,
        conversation = [NewUserMessage [OfToolResult ''toolu_1'' ''tool not found'' True]],
        readUserInput = False, world = ex_world\<rparr>\<close>
proof -
  have n: "''launch'' \<notin> ToolDefinition.Name ` set (tools ex_agent)"
    by (simp add: ex_registry_names)
  note t = unregistered_tool_is_reported [of "''launch''" ex_agent "''toolu_1''" "''{}''" ex_world
      "\<lparr>control = Dispatch \<lparr>Message.Content =
             [\<lparr>Type = ''tool_use'', Text = [], ID = ''toolu_1'', Name = ''launch'', Input = ''{}''\<rparr>]\<rparr>,
         conversation = [], readUserInput = True, world = ex_world\<rparr>"
      "\<lparr>Message.Content =
             [\<lparr>Type = ''tool_use'', Text = [], ID = ''toolu_1'', Name = ''launch'', Input = ''{}''\<rparr>]\<rparr>"]
  show ?thesis using n t by (simp add: NewToolResultBlock_def)
qed

lemma find_read_file:
  "find (\<lambda>tool. ToolDefinition.Name tool = ''read_file'') (main_tools L F) = Some (ReadFileDefinition L)"
  by (simp add: main_tools_def ReadFileDefinition_def)

text \<open>
  C3. The claim is that \<open>executeTool\<close> returns a tool result for every tool name and every
  input. It does not for \<open>read_file\<close>: when the decoder rejects the input, \<open>ReadFile\<close>
  panics and \<open>executeTool\<close> returns nothing, whereas \<open>EditFile\<close> and \<open>CommandExecution\<close>
  return the decoder's error.
\<close>

theorem read_file_panics_on_undecodable_input:
  assumes "Unmarshal_ReadFileInput L input = Inl err"
  shows "executeTool (main_tools L F) tid ''read_file'' input w = (Panic err, w)"
  using assms by (simp add: executeTool_def find_read_file ReadFileDefinition_def ReadFile_def)

text \<open>The input \<^verbatim>\<open>{"path": 5}\<close> has a number where \<^verbatim>\<open>ReadFileInput\<close> has a string.\<close>

theorem read_file_panics_on_undecodable_input_witness:
  \<open>executeTool (main_tools ex_lib ex_FetchUrl) ''toolu_1'' ''read_file'' ''{"path": 5}'' ex_world
     = (Panic (Failure
          ''json: cannot unmarshal number into Go struct field ReadFileInput.path of type string''),
        ex_world)\<close>
proof -
  have d: \<open>Unmarshal_ReadFileInput ex_lib ''{"path": 5}''
       = Inl (Failure
          ''json: cannot unmarshal number into Go struct field ReadFileInput.path of type string'')\<close>
    by code_simp
  show ?thesis by (rule read_file_panics_on_undecodable_input [OF d])
qed

section \<open>command\_execution: the guardrails and the confirmation\<close>

lemma passes_guardrails_find:
  "passes_guardrails L command \<Longrightarrow> find (strings_Contains (strings_ToLower L command)) disallowed = None"
  by (simp add: passes_guardrails_def Let_def find_None_iff list_all_iff)

text \<open>
  C5, as the code has it. A command is rejected with an error, and nothing is asked of the
  operator or run (the world is as before), when it is empty, when its lower-cased form
  contains one of \<open>rm \<close>, \<open>shutdown\<close>, \<open>reboot\<close>, \<open>kill \<close>, \<open>passwd\<close>, \<open>chown\<close>, \<open>chmod\<close>,
  \<open>sudo\<close>, \<open>su\<close> (\<open>rm\<close> and \<open>kill\<close> with a space after them) or \<open>cd \<close>, a \<open>/\<close> or \<open>..\<close>,
  or when it is longer than 256 bytes.
\<close>

theorem guardrail_rejects_without_executing:
  assumes "Unmarshal_CommandExecutionInput L input = Inr commandInput"
    and "lowerCmd = strings_ToLower L (Command commandInput)"
    and "Command commandInput = []
         \<or> (\<exists>d\<in>set disallowed. strings_Contains lowerCmd d)
         \<or> strings_Contains lowerCmd ''cd ''
         \<or> 256 < length (Command commandInput)
         \<or> strings_Contains lowerCmd ''/''
         \<or> strings_Contains lowerCmd ''..''"
  shows "\<exists>msg. CommandExecution L input w = (Return (Inl (Failure msg)), w)"
proof (cases "Command commandInput = []")
  case True
  then show ?thesis using assms(1) by (simp add: CommandExecution_def fmt_Errorf_def)
next
  case ne: False
  show ?thesis
  proof (cases "find (strings_Contains lowerCmd) disallowed")
    case (Some d)
    then show ?thesis
      using assms(1,2) ne by (simp add: CommandExecution_def fmt_Errorf_def Let_def)
  next
    case None
    then have "\<not> (\<exists>d\<in>set disallowed. strings_Contains lowerCmd d)"
      by (simp add: find_None_iff)
    then have "strings_Contains lowerCmd ''cd ''
         \<or> 256 < length (Command commandInput)
         \<or> strings_Contains lowerCmd ''/''
         \<or> strings_Contains lowerCmd ''..''"
      using assms(3) ne by blast
    then show ?thesis
      using assms(1,2) ne None by (auto simp add: CommandExecution_def fmt_Errorf_def Let_def)
  qed
qed

text \<open>\<^verbatim>\<open>SuDo ls\<close> is rejected for \<open>sudo\<close>, whatever the operator would answer; the shell runs nothing.\<close>

theorem guardrail_rejects_without_executing_witness:
  \<open>\<exists>msg. CommandExecution ex_lib ''{"command": "SuDo ls"}'' (ex_world\<lparr>confirmations := [''yes'']\<rparr>)
     = (Return (Inl (Failure msg)), ex_world\<lparr>confirmations := [''yes'']\<rparr>)\<close>
proof -
  have d: \<open>Unmarshal_CommandExecutionInput ex_lib ''{"command": "SuDo ls"}'' = Inr \<lparr>Command = ''SuDo ls''\<rparr>\<close>
    by code_simp
  have l: "''sudo ls'' = strings_ToLower ex_lib (Command \<lparr>Command = ''SuDo ls''\<rparr>)"
    by code_simp
  have c: "strings_Contains ''sudo ls'' ''sudo''"
    by code_simp
  have m: "''sudo'' \<in> set disallowed"
    by (simp add: disallowed_def)
  have h: "Command \<lparr>Command = ''SuDo ls''\<rparr> = []
         \<or> (\<exists>d\<in>set disallowed. strings_Contains ''sudo ls'' d)
         \<or> strings_Contains ''sudo ls'' ''cd ''
         \<or> 256 < length (Command \<lparr>Command = ''SuDo ls''\<rparr>)
         \<or> strings_Contains ''sudo ls'' ''/''
         \<or> strings_Contains ''sudo ls'' ''..''"
    using c m by blast
  show ?thesis by (rule guardrail_rejects_without_executing [OF d l h])
qed

text \<open>
  The claim names \<open>rm\<close> as a denied substring. \<^verbatim>\<open>echo confirm\<close> contains it, passes the
  guardrails, and is run once the operator answers \<open>yes\<close>.
\<close>

theorem guardrail_rm_counterexample:
  \<open>strings_Contains (strings_ToLower ex_lib ''echo confirm'') ''rm''
   \<and> CommandExecution ex_lib ''{"command": "echo confirm"}'' (ex_world\<lparr>confirmations := [''yes'']\<rparr>)
       = (Return (Inr (''confirm'' @ [CHR 0x0A])), ex_world\<lparr>shell_log := [''echo confirm'']\<rparr>)\<close>
  by code_simp

lemma Scanln_word_ascii:
  "list_all (\<lambda>c. of_char c < (128::nat)) line \<Longrightarrow>
   Scanln_word L line = takeWhile (\<lambda>c. \<not> fmt_isSpace c) (dropWhile fmt_isSpace line)"
  by (simp add: Scanln_word_def)

text \<open>
  C6, as the code has it. For a command that passes the guardrails the tool reads the
  operator's line, of which \<^verbatim>\<open>fmt.Scanln\<close> keeps the first word. When that word in lower
  case is not \<open>yes\<close>, the tool returns the error \<open>command execution cancelled by user\<close> and
  the shell is not called (the world is the one after the line was read). When it is, as
  for \<^verbatim>\<open>yes\<close>, \<^verbatim>\<open>YES\<close> or \<^verbatim>\<open>yes please\<close>, the shell runs the command; the tool returns the
  output when the command succeeds, and an error holding the failure and the output when
  it does not.
\<close>

theorem confirmation_decides_execution:
  assumes "Unmarshal_CommandExecutionInput L input = Inr commandInput"
    and "passes_guardrails L (Command commandInput)"
    and "os_Stdin_line L w = (line, w1)"
    and "exec_CombinedOutput L (Command commandInput) w1 = ((output, err), w2)"
  shows "CommandExecution L input w =
           (if strings_ToLower L (Scanln_word L line) \<noteq> ''yes'' then
              (Return (Inl (Failure ''command execution cancelled by user'')), w1)
            else case err of
                   None \<Rightarrow> (Return (Inr output), w2)
                 | Some e \<Rightarrow>
                     (Return (Inl (Failure (''command execution failed: '' @ Error e @ [CHR 0x0A]
                                              @ ''Output: '' @ output))), w2))"
proof -
  have f: "find (strings_Contains (strings_ToLower L (Command commandInput))) disallowed = None"
    using assms(2) by (rule passes_guardrails_find)
  have g: "Command commandInput \<noteq> []"
    "\<not> strings_Contains (strings_ToLower L (Command commandInput)) ''cd ''"
    "\<not> 256 < length (Command commandInput)"
    "\<not> strings_Contains (strings_ToLower L (Command commandInput)) ''/''"
    "\<not> strings_Contains (strings_ToLower L (Command commandInput)) ''..''"
    using assms(2) by (simp_all add: passes_guardrails_def Let_def)
  have s: "fmt_Scanln L w = (Scanln_word L line, w1)"
    using assms(3) by (simp add: fmt_Scanln_def)
  show ?thesis
    using assms(1,4) s f g
    by (cases err) (simp_all add: CommandExecution_def fmt_Errorf_def Let_def)
qed

text \<open>
  \<^verbatim>\<open>echo hello\<close>: the line \<^verbatim>\<open>no\<close> cancels it and the shell's log stays empty; the line
  \<^verbatim>\<open>yes please\<close>, whose first word is \<open>yes\<close>, runs it.
\<close>

theorem confirmation_decides_execution_witness:
  \<open>CommandExecution ex_lib ''{"command": "echo hello"}'' (ex_world\<lparr>confirmations := [''no'']\<rparr>)
     = (Return (Inl (Failure ''command execution cancelled by user'')), ex_world)
   \<and> Scanln_word ex_lib ''yes please'' = ''yes''
   \<and> CommandExecution ex_lib ''{"command": "echo hello"}''
         (ex_world\<lparr>confirmations := [''yes please'']\<rparr>)
       = (Return (Inr (''hello'' @ [CHR 0x0A])), ex_world\<lparr>shell_log := [''echo hello'']\<rparr>)\<close>
proof -
  have d: \<open>Unmarshal_CommandExecutionInput ex_lib ''{"command": "echo hello"}'' = Inr \<lparr>Command = ''echo hello''\<rparr>\<close>
    by code_simp
  have p: "passes_guardrails ex_lib (Command \<lparr>Command = ''echo hello''\<rparr>)"
    by code_simp
  have s: "os_Stdin_line ex_lib (ex_world\<lparr>confirmations := [''no'']\<rparr>) = (''no'', ex_world)"
    by code_simp
  have s': "os_Stdin_line ex_lib (ex_world\<lparr>confirmations := [''yes please'']\<rparr>)
              = (''yes please'', ex_world)"
    by code_simp
  have e: "exec_CombinedOutput ex_lib (Command \<lparr>Command = ''echo hello''\<rparr>) ex_world
             = ((''hello'' @ [CHR 0x0A], None), ex_world\<lparr>shell_log := [''echo hello'']\<rparr>)"
    by code_simp
  have n: "strings_ToLower ex_lib (Scanln_word ex_lib ''no'') \<noteq> ''yes''"
    by code_simp
  have y: "Scanln_word ex_lib ''yes please'' = ''yes''"
    by code_simp
  have y': "strings_ToLower ex_lib ''yes'' = ''yes''"
    by code_simp
  have 1: \<open>CommandExecution ex_lib ''{"command": "echo hello"}'' (ex_world\<lparr>confirmations := [''no'']\<rparr>)
     = (Return (Inl (Failure ''command execution cancelled by user'')), ex_world)\<close>
    using confirmation_decides_execution [OF d p s e] n by simp
  have 2: \<open>CommandExecution ex_lib ''{"command": "echo hello"}''
         (ex_world\<lparr>confirmations := [''yes please'']\<rparr>)
       = (Return (Inr (''hello'' @ [CHR 0x0A])), ex_world\<lparr>shell_log := [''echo hello'']\<rparr>)\<close>
    using confirmation_decides_execution [OF d p s' e] y y' by simp
  show ?thesis using 1 y 2 by blast
qed

text \<open>
  The claim has every answer but \<open>yes\<close> cancel the command. The answer \<^verbatim>\<open>YES\<close> is not
  \<open>yes\<close>, and the command is run.
\<close>

theorem confirmation_upper_case_counterexample:
  \<open>''YES'' \<noteq> ''yes''
   \<and> CommandExecution ex_lib ''{"command": "echo hello"}'' (ex_world\<lparr>confirmations := [''YES'']\<rparr>)
       = (Return (Inr (''hello'' @ [CHR 0x0A])), ex_world\<lparr>shell_log := [''echo hello'']\<rparr>)\<close>
  by code_simp

section \<open>edit\_file\<close>

text \<open>
  C7, as the code has it. When the path is not empty, reading it fails with an error that
  \<open>os.IsNotExist\<close> accepts, \<open>old_str\<close> is empty and \<open>new_str\<close> is not, \<open>EditFile\<close> makes the
  directory of the path (unless it is \<open>.\<close>) and writes \<open>new_str\<close> to the path; when both
  succeed it returns \<open>Successfully created file\<close> and the path.
\<close>

theorem edit_file_creates_missing_file:
  assumes "Unmarshal_EditFileInput L input = Inr editFileInput"
    and "EditFileInput.Path editFileInput \<noteq> []"
    and "OldStr editFileInput = []"
    and "NewStr editFileInput \<noteq> []"
    and "os_ReadFile L (EditFileInput.Path editFileInput) w = Inl err"
    and "os_IsNotExist err"
    and "(if path_Dir L (EditFileInput.Path editFileInput) \<noteq> ''.''
          then os_MkdirAll L (path_Dir L (EditFileInput.Path editFileInput)) 493 w
          else (None, w)) = (None, w1)"
    and "os_WriteFile L (EditFileInput.Path editFileInput) (NewStr editFileInput) 420 w1 = (None, w2)"
  shows "EditFile L input w
           = (Return (Inr (''Successfully created file '' @ EditFileInput.Path editFileInput)), w2)"
  using assms by (simp add: EditFile_def createNewFile_def split: if_splits)

text \<open>\<^verbatim>\<open>docs/new.txt\<close> is created with its directory, and reads back as \<open>hello\<close>.\<close>

theorem edit_file_creates_missing_file_witness:
  \<open>EditFile ex_lib ''{"path": "docs/new.txt", "old_str": "", "new_str": "hello"}'' ex_world
     = (Return (Inr ''Successfully created file docs/new.txt''),
        ex_world\<lparr>cwd := Dir [(''docs'', Dir [(''new.txt'', File ''hello'')]),
                             (''notes.txt'', File ''banana''),
                             (''src'', Dir [(''main.go'', File ''package main'')])]\<rparr>)
   \<and> os_ReadFile ex_lib ''docs/new.txt''
        (ex_world\<lparr>cwd := Dir [(''docs'', Dir [(''new.txt'', File ''hello'')]),
                             (''notes.txt'', File ''banana''),
                             (''src'', Dir [(''main.go'', File ''package main'')])]\<rparr>)
       = Inr ''hello''\<close>
proof -
  let ?i = "\<lparr>EditFileInput.Path = ''docs/new.txt'', OldStr = [], NewStr = ''hello''\<rparr>"
  let ?w1 = "ex_world\<lparr>cwd := Dir [(''docs'', Dir []), (''notes.txt'', File ''banana''),
                             (''src'', Dir [(''main.go'', File ''package main'')])]\<rparr>"
  let ?w2 = "ex_world\<lparr>cwd := Dir [(''docs'', Dir [(''new.txt'', File ''hello'')]),
                             (''notes.txt'', File ''banana''),
                             (''src'', Dir [(''main.go'', File ''package main'')])]\<rparr>"
  have d: \<open>Unmarshal_EditFileInput ex_lib ''{"path": "docs/new.txt", "old_str": "", "new_str": "hello"}''
            = Inr ?i\<close>
    by code_simp
  have p: "EditFileInput.Path ?i \<noteq> []"
    by simp
  have ol: "OldStr ?i = []"
    by simp
  have nw: "NewStr ?i \<noteq> []"
    by simp
  have r: "os_ReadFile ex_lib (EditFileInput.Path ?i) ex_world
             = Inl (NotExist ''open docs/new.txt: no such file or directory'')"
    by code_simp
  have n: "os_IsNotExist (NotExist ''open docs/new.txt: no such file or directory'')"
    by simp
  have m: "(if path_Dir ex_lib (EditFileInput.Path ?i) \<noteq> ''.''
          then os_MkdirAll ex_lib (path_Dir ex_lib (EditFileInput.Path ?i)) 493 ex_world
          else (None, ex_world)) = (None, ?w1)"
    by code_simp
  have wr: "os_WriteFile ex_lib (EditFileInput.Path ?i) (NewStr ?i) 420 ?w1 = (None, ?w2)"
    by code_simp
  have after: "os_ReadFile ex_lib ''docs/new.txt'' ?w2 = Inr ''hello''"
    by code_simp
  show ?thesis
    using edit_file_creates_missing_file [OF d p ol nw r n m wr] after by simp
qed

text \<open>
  The claim is for every \<open>new_str\<close>. With \<open>new_str\<close> empty, as \<open>old_str\<close> is, the input is
  refused and no file is made: \<^verbatim>\<open>new.txt\<close> is still missing.
\<close>

theorem edit_file_empty_new_str_counterexample:
  \<open>os_ReadFile ex_lib ''new.txt'' ex_world = Inl (NotExist ''open new.txt: no such file or directory'')
   \<and> EditFile ex_lib ''{"path": "new.txt", "old_str": "", "new_str": ""}'' ex_world
       = (Return (Inl (Failure ''invalid input parameters'')), ex_world)\<close>
  by code_simp

text \<open>
  C8. When \<open>old_str\<close> and \<open>new_str\<close> are equal, \<open>EditFile\<close> returns the error
  \<open>invalid input parameters\<close> whatever the file system holds and does: it asks nothing of
  it. When \<open>old_str\<close> is not empty and does not occur in the content of the file, \<open>EditFile\<close>
  returns an error and writes nothing. In both cases the world is as before.
\<close>

theorem edit_file_rejects_and_leaves_files:
  assumes "Unmarshal_EditFileInput L input = Inr editFileInput"
  shows "(OldStr editFileInput = NewStr editFileInput
            \<longrightarrow> EditFile L input w = (Return (Inl (Failure ''invalid input parameters'')), w))
         \<and> (OldStr editFileInput \<noteq> []
              \<and> os_ReadFile L (EditFileInput.Path editFileInput) w = Inr content
              \<and> \<not> strings_Contains content (OldStr editFileInput)
            \<longrightarrow> (\<exists>msg. EditFile L input w = (Return (Inl (Failure msg)), w)))"
proof (intro conjI impI)
  assume "OldStr editFileInput = NewStr editFileInput"
  then show "EditFile L input w = (Return (Inl (Failure ''invalid input parameters'')), w)"
    using assms by (simp add: EditFile_def fmt_Errorf_def)
next
  assume h: "OldStr editFileInput \<noteq> []
              \<and> os_ReadFile L (EditFileInput.Path editFileInput) w = Inr content
              \<and> \<not> strings_Contains content (OldStr editFileInput)"
  then have "strings_Replace_all L content (OldStr editFileInput) (NewStr editFileInput) = content"
    by (simp add: Replace_all_absent)
  then show "\<exists>msg. EditFile L input w = (Return (Inl (Failure msg)), w)"
    using assms h by (simp add: EditFile_def fmt_Errorf_def)
qed

text \<open>\<^verbatim>\<open>notes.txt\<close> holds \<open>banana\<close>: replacing \<open>a\<close> by \<open>a\<close>, or \<open>zz\<close> by \<open>y\<close>, is an error.\<close>

theorem edit_file_rejects_and_leaves_files_witness:
  \<open>EditFile ex_lib ''{"path": "notes.txt", "old_str": "a", "new_str": "a"}'' ex_world
     = (Return (Inl (Failure ''invalid input parameters'')), ex_world)
   \<and> (\<exists>msg. EditFile ex_lib ''{"path": "notes.txt", "old_str": "zz", "new_str": "y"}'' ex_world
       = (Return (Inl (Failure msg)), ex_world))\<close>
proof -
  let ?a = "\<lparr>EditFileInput.Path = ''notes.txt'', OldStr = ''a'', NewStr = ''a''\<rparr>"
  let ?z = "\<lparr>EditFileInput.Path = ''notes.txt'', OldStr = ''zz'', NewStr = ''y''\<rparr>"
  have da: \<open>Unmarshal_EditFileInput ex_lib ''{"path": "notes.txt", "old_str": "a", "new_str": "a"}'' = Inr ?a\<close>
    by code_simp
  have dz: \<open>Unmarshal_EditFileInput ex_lib ''{"path": "notes.txt", "old_str": "zz", "new_str": "y"}'' = Inr ?z\<close>
    by code_simp
  have r: "os_ReadFile ex_lib (EditFileInput.Path ?z) ex_world = Inr ''banana''"
    by code_simp
  have c: "\<not> strings_Contains ''banana'' (OldStr ?z)"
    by code_simp
  have ne: "OldStr ?z \<noteq> []"
    by simp
  have 1: \<open>EditFile ex_lib ''{"path": "notes.txt", "old_str": "a", "new_str": "a"}'' ex_world
     = (Return (Inl (Failure ''invalid input parameters'')), ex_world)\<close>
    using edit_file_rejects_and_leaves_files [OF da, of ex_world "''banana''"] by simp
  have 2: \<open>\<exists>msg. EditFile ex_lib ''{"path": "notes.txt", "old_str": "zz", "new_str": "y"}'' ex_world
       = (Return (Inl (Failure msg)), ex_world)\<close>
    using edit_file_rejects_and_leaves_files [OF dz, of ex_world "''banana''"] r c ne by blast
  show ?thesis using 1 2 by (rule conjI)
qed

text \<open>
  C10, as the code has it. When the file is read, \<open>old_str\<close> is not empty, occurs in the
  content and differs from \<open>new_str\<close>, \<open>EditFile\<close> writes to the path the content with
  every match of \<open>old_str\<close>, from the left and not overlapping, replaced by \<open>new_str\<close>; it
  returns \<open>OK\<close> when the write succeeds and the error of the write when it fails.
\<close>

theorem edit_file_replaces_every_match:
  assumes "Unmarshal_EditFileInput L input = Inr editFileInput"
    and "EditFileInput.Path editFileInput \<noteq> []"
    and "os_ReadFile L (EditFileInput.Path editFileInput) w = Inr content"
    and "OldStr editFileInput \<noteq> []"
    and "strings_Contains content (OldStr editFileInput)"
    and "OldStr editFileInput \<noteq> NewStr editFileInput"
    and "os_WriteFile L (EditFileInput.Path editFileInput)
           (replace_matches content (OldStr editFileInput) (NewStr editFileInput)) 420 w = (werr, w')"
  shows "EditFile L input w =
           (case werr of None \<Rightarrow> (Return (Inr ''OK''), w') | Some e \<Rightarrow> (Return (Inl e), w'))"
proof -
  have r: "strings_Replace_all L content (OldStr editFileInput) (NewStr editFileInput)
             = replace_matches content (OldStr editFileInput) (NewStr editFileInput)"
    using assms(4,6) by (simp add: strings_Replace_all_def)
  have "replace_matches content (OldStr editFileInput) (NewStr editFileInput) \<noteq> content"
    using assms(4,5,6) by (simp add: replace_matches_changes)
  then show ?thesis
    using assms(1,2,3,6,7) r by (cases werr) (auto simp add: EditFile_def)
qed

text \<open>In \<open>banana\<close> all three \<open>a\<close> become \<open>o\<close>, and \<^verbatim>\<open>notes.txt\<close> then holds \<open>bonono\<close>.\<close>

theorem edit_file_replaces_every_match_witness:
  \<open>replace_matches ''banana'' ''a'' ''o'' = ''bonono''
   \<and> EditFile ex_lib ''{"path": "notes.txt", "old_str": "a", "new_str": "o"}'' ex_world
       = (Return (Inr ''OK''),
          ex_world\<lparr>cwd := Dir [(''notes.txt'', File ''bonono''),
                               (''src'', Dir [(''main.go'', File ''package main'')])]\<rparr>)\<close>
proof -
  let ?i = "\<lparr>EditFileInput.Path = ''notes.txt'', OldStr = ''a'', NewStr = ''o''\<rparr>"
  let ?w = "ex_world\<lparr>cwd := Dir [(''notes.txt'', File ''bonono''),
                               (''src'', Dir [(''main.go'', File ''package main'')])]\<rparr>"
  have d: \<open>Unmarshal_EditFileInput ex_lib ''{"path": "notes.txt", "old_str": "a", "new_str": "o"}'' = Inr ?i\<close>
    by code_simp
  have p: "EditFileInput.Path ?i \<noteq> []"
    by simp
  have ne: "OldStr ?i \<noteq> []"
    by simp
  have df: "OldStr ?i \<noteq> NewStr ?i"
    by simp
  have r: "os_ReadFile ex_lib (EditFileInput.Path ?i) ex_world = Inr ''banana''"
    by code_simp
  have c: "strings_Contains ''banana'' (OldStr ?i)"
    by code_simp
  have rep: "replace_matches ''banana'' ''a'' ''o'' = ''bonono''"
    by code_simp
  have wr: "os_WriteFile ex_lib (EditFileInput.Path ?i)
              (replace_matches ''banana'' (OldStr ?i) (NewStr ?i)) 420 ex_world = (None, ?w)"
    by code_simp
  show ?thesis
    using edit_file_replaces_every_match [OF d p r ne c df wr] rep by simp
qed

text \<open>
  The claim is for every \<open>old_str\<close> that occurs in the content. \<open>a\<close> occurs in \<open>banana\<close>,
  but with \<open>new_str\<close> also \<open>a\<close> the tool returns an error and not success.
\<close>

theorem edit_file_same_strings_counterexample:
  \<open>os_ReadFile ex_lib ''notes.txt'' ex_world = Inr ''banana''
   \<and> strings_Contains ''banana'' ''a''
   \<and> EditFile ex_lib ''{"path": "notes.txt", "old_str": "a", "new_str": "a"}'' ex_world
       = (Return (Inl (Failure ''invalid input parameters'')), ex_world)\<close>
  by code_simp

section \<open>list\_files\<close>

lemma walk_calls_listing:
  assumes "\<forall>c\<in>set calls. \<exists>p d. c = WalkCall p d None \<and> filepath_Rel L dir p = Inr p"
  shows "walk_calls L dir calls files = Inr (files @ walk_listing calls)"
  using assms
proof (induction calls arbitrary: files)
  case Nil
  then show ?case by (simp add: walk_listing_def)
next
  case (Cons c calls)
  from Cons.prems obtain p d where c: "c = WalkCall p d None" "filepath_Rel L dir p = Inr p"
    by auto
  have rest: "\<And>fs. walk_calls L dir calls fs = Inr (fs @ walk_listing calls)"
    using Cons.IH Cons.prems by simp
  show ?case using c rest by (simp add: walk_listing_def)
qed

lemma find_list_files:
  "find (\<lambda>tool. ToolDefinition.Name tool = ''list_files'') (main_tools L F) = Some (ListFilesDefinition L)"
  by (simp add: main_tools_def ReadFileDefinition_def ListFilesDefinition_def)

text \<open>
  C9, as the code has it. With an empty path \<open>ListFiles\<close> walks \<open>.\<close> and, when the walk
  meets no error and every path it visits is its own path relative to \<open>.\<close>, returns as a
  structured listing all the paths below \<open>.\<close> that the walk visits, at every depth and in
  the order of the walk, a directory with a \<open>/\<close> after it: the JSON array of these paths,
  and JSON \<^verbatim>\<open>null\<close> when there is none. The dispatcher returns it as the result of the request.
\<close>

theorem list_files_lists_the_whole_walk:
  assumes "Unmarshal_ListFilesInput L input = Inr listFilesInput"
    and "ListFilesInput.Path listFilesInput = []"
    and "\<forall>c\<in>set (filepath_Walk L ''.'' w). \<exists>p d. c = WalkCall p d None \<and> filepath_Rel L ''.'' p = Inr p"
    and "files = walk_listing (filepath_Walk L ''.'' w)"
    and "listing = (if files = [] then ''null''
                    else ''['' @ comma_separated (map (json_string L) files) @ '']'')"
  shows "ListFiles L input w = (Return (Inr listing), w)
         \<and> executeTool (main_tools L F) tid ''list_files'' input w
             = (Return (NewToolResultBlock tid listing False), w)"
proof -
  have m: "json_Marshal L files = Inr listing"
    using assms(5) by (simp add: json_Marshal_def)
  have l: "ListFiles L input w = (Return (Inr listing), w)"
    using assms(1,2,4) walk_calls_listing [OF assms(3), of "[]"] m
    by (simp add: ListFiles_def)
  then have "executeTool (main_tools L F) tid ''list_files'' input w
             = (Return (NewToolResultBlock tid listing False), w)"
    by (simp add: executeTool_def find_list_files ListFilesDefinition_def)
  then show ?thesis using l by simp
qed

text \<open>
  The working directory of the small world: one file, one directory, one file in it. And an
  empty working directory, where the listing is \<^verbatim>\<open>null\<close>.
\<close>

theorem list_files_lists_the_whole_walk_witness:
  \<open>ListFiles ex_lib ''{}'' ex_world
     = (Return (Inr ''["notes.txt","src/","src/main.go"]''), ex_world)
   \<and> executeTool (main_tools ex_lib ex_FetchUrl) ''toolu_1'' ''list_files'' ''{}'' ex_world
       = (Return (OfToolResult ''toolu_1'' ''["notes.txt","src/","src/main.go"]'' False), ex_world)
   \<and> ListFiles ex_lib ''{}'' (ex_world\<lparr>cwd := Dir []\<rparr>)
       = (Return (Inr ''null''), ex_world\<lparr>cwd := Dir []\<rparr>)\<close>
proof -
  let ?e = "ex_world\<lparr>cwd := Dir []\<rparr>"
  have d: \<open>Unmarshal_ListFilesInput ex_lib ''{}'' = Inr \<lparr>ListFilesInput.Path = []\<rparr>\<close>
    by code_simp
  have p: "ListFilesInput.Path \<lparr>ListFilesInput.Path = []\<rparr> = []"
    by simp
  have wk: "filepath_Walk ex_lib ''.'' ex_world
              = [WalkCall ''.'' True None, WalkCall ''notes.txt'' False None,
                 WalkCall ''src'' True None, WalkCall ''src/main.go'' False None]"
    by code_simp
  have wk': "filepath_Walk ex_lib ''.'' ?e = [WalkCall ''.'' True None]"
    by code_simp
  have rl: "filepath_Rel ex_lib ''.'' ''.'' = Inr ''.''"
    "filepath_Rel ex_lib ''.'' ''notes.txt'' = Inr ''notes.txt''"
    "filepath_Rel ex_lib ''.'' ''src'' = Inr ''src''"
    "filepath_Rel ex_lib ''.'' ''src/main.go'' = Inr ''src/main.go''"
    by code_simp+
  have h: "\<forall>c\<in>set (filepath_Walk ex_lib ''.'' ex_world).
              \<exists>p d. c = WalkCall p d None \<and> filepath_Rel ex_lib ''.'' p = Inr p"
    unfolding wk using rl by auto
  have h': "\<forall>c\<in>set (filepath_Walk ex_lib ''.'' ?e).
              \<exists>p d. c = WalkCall p d None \<and> filepath_Rel ex_lib ''.'' p = Inr p"
    unfolding wk' using rl by auto
  have f: "[''notes.txt'', ''src/'', ''src/main.go''] = walk_listing (filepath_Walk ex_lib ''.'' ex_world)"
    by code_simp
  have f': "[] = walk_listing (filepath_Walk ex_lib ''.'' ?e)"
    by code_simp
  have m: \<open>''["notes.txt","src/","src/main.go"]''
             = (if [''notes.txt'', ''src/'', ''src/main.go''] = [] then ''null''
                else ''['' @ comma_separated (map (json_string ex_lib) [''notes.txt'', ''src/'', ''src/main.go'']) @ '']'')\<close>
    by code_simp
  have m': "''null'' = (if ([]::string list) = [] then ''null''
                else ''['' @ comma_separated (map (json_string ex_lib) []) @ '']'')"
    by simp
  note 1 = list_files_lists_the_whole_walk [OF d p h f m, of ex_FetchUrl "''toolu_1''"]
  note 2 = list_files_lists_the_whole_walk [OF d p h' f' m', of ex_FetchUrl "''toolu_1''"]
  show ?thesis using 1 2 by (simp add: NewToolResultBlock_def)
qed

text \<open>
  The claim is the immediate entries of the current directory. These are \<^verbatim>\<open>notes.txt\<close> and
  \<^verbatim>\<open>src/\<close>; the tool also returns \<^verbatim>\<open>src/main.go\<close>, one level down.
\<close>

theorem list_files_immediate_entries_counterexample:
  \<open>json_Marshal ex_lib (immediate_entries (cwd ex_world)) = Inr ''["notes.txt","src/"]''
   \<and> ListFiles ex_lib ''{}'' ex_world
       = (Return (Inr ''["notes.txt","src/","src/main.go"]''), ex_world)\<close>
  by code_simp

section \<open>The order of turns in the conversation\<close>

lemma executeTool_Return_id:
  assumes "executeTool ts tid name input w = (Return r, w')"
  shows "\<exists>c e. r = OfToolResult tid c e"
proof (cases "find (\<lambda>tool. ToolDefinition.Name tool = name) ts")
  case None
  then have "r = OfToolResult tid ''tool not found'' True"
    using assms by (simp add: executeTool_def NewToolResultBlock_def)
  then show ?thesis by blast
next
  case (Some toolDef)
  obtain out w1 where f: "Function toolDef input w = (out, w1)"
    by (cases "Function toolDef input w") auto
  show ?thesis
  proof (cases out)
    case (Panic e)
    then show ?thesis using assms Some f by (simp add: executeTool_def)
  next
    case (Return v)
    show ?thesis
    proof (cases v)
      case (Inl err)
      then have "r = OfToolResult tid (Error err) True"
        using assms Some f Return by (simp add: executeTool_def NewToolResultBlock_def)
      then show ?thesis by blast
    next
      case (Inr response)
      then have "r = OfToolResult tid response False"
        using assms Some f Return by (simp add: executeTool_def NewToolResultBlock_def)
      then show ?thesis by blast
    qed
  qed
qed

lemma dispatch_content_skip:
  "Type c \<noteq> ''tool_use'' \<Longrightarrow> dispatch_content a (c # cs) acc w = dispatch_content a cs acc w"
  by simp

lemma dispatch_content_tool_use:
  "Type c = ''tool_use'' \<Longrightarrow>
   dispatch_content a (c # cs) acc w =
     (case executeTool (tools a) (ID c) (ContentBlockUnion.Name c) (Input c) w of
        (Panic e, w') \<Rightarrow> (Panic e, w')
      | (Return result, w') \<Rightarrow> dispatch_content a cs (acc @ [result]) w')"
  by simp

lemma dispatch_content_results:
  "dispatch_content a cs acc w = (Return rs, w') \<Longrightarrow>
   \<exists>new. rs = acc @ new \<and> list_all is_tool_result new
     \<and> tool_result_ids new = map ID (filter (\<lambda>c. Type c = ''tool_use'') cs)"
proof (induction cs arbitrary: acc w)
  case Nil
  then have "rs = acc @ []" by simp
  then show ?case by (intro exI [of _ "[]"]) simp
next
  case (Cons c cs)
  show ?case
  proof (cases "Type c = ''tool_use''")
    case False
    have "dispatch_content a (c # cs) acc w = dispatch_content a cs acc w"
      using False by (rule dispatch_content_skip)
    then have "dispatch_content a cs acc w = (Return rs, w')"
      using Cons.prems by (simp del: dispatch_content.simps)
    from Cons.IH [OF this] obtain new where new: "rs = acc @ new" "list_all is_tool_result new"
      "tool_result_ids new = map ID (filter (\<lambda>c. Type c = ''tool_use'') cs)"
      by blast
    have "tool_result_ids new = map ID (filter (\<lambda>c. Type c = ''tool_use'') (c # cs))"
      using new(3) False by simp
    then show ?thesis using new(1,2) by blast
  next
    case True
    obtain out w1 where e: "executeTool (tools a) (ID c) (ContentBlockUnion.Name c) (Input c) w = (out, w1)"
      by (cases "executeTool (tools a) (ID c) (ContentBlockUnion.Name c) (Input c) w") blast
    have u: "dispatch_content a (c # cs) acc w =
       (case out of Panic e \<Rightarrow> (Panic e, w1) | Return result \<Rightarrow> dispatch_content a cs (acc @ [result]) w1)"
      by (simp only: dispatch_content_tool_use [OF True] e prod.case)
    show ?thesis
    proof (cases out)
      case (Panic err)
      then have "dispatch_content a (c # cs) acc w = (Panic err, w1)"
        using u by (simp only: outcome.case)
      then show ?thesis using Cons.prems by (simp del: dispatch_content.simps)
    next
      case (Return r)
      then have "dispatch_content a (c # cs) acc w = dispatch_content a cs (acc @ [r]) w1"
        using u by (simp only: outcome.case)
      then have d: "dispatch_content a cs (acc @ [r]) w1 = (Return rs, w')"
        using Cons.prems by (simp del: dispatch_content.simps)
      have e': "executeTool (tools a) (ID c) (ContentBlockUnion.Name c) (Input c) w = (Return r, w1)"
        using e Return by (simp only:)
      from executeTool_Return_id [OF e'] obtain ct er where r: "r = OfToolResult (ID c) ct er"
        by (elim exE)
      from Cons.IH [OF d] obtain new where new: "rs = (acc @ [r]) @ new" "list_all is_tool_result new"
        "tool_result_ids new = map ID (filter (\<lambda>c. Type c = ''tool_use'') cs)"
        by blast
      have 1: "rs = acc @ (r # new)" using new(1) by simp
      have 2: "list_all is_tool_result (r # new)" using new(2) r by simp
      have 3: "tool_result_ids (r # new) = map ID (filter (\<lambda>c. Type c = ''tool_use'') (c # cs))"
        using new(3) r True by simp
      show ?thesis using 1 2 3 by blast
    qed
  qed
qed


lemma tool_use_ids_ToParam:
  "tool_use_ids (map ContentBlockUnion_ToParam cs) = map ID (filter (\<lambda>c. Type c = ''tool_use'') cs)"
proof (induction cs)
  case Nil
  show ?case by simp
next
  case (Cons c cs)
  show ?case
  proof (cases "Type c = ''tool_use''")
    case True
    then have "ContentBlockUnion_ToParam c = OfToolUse (ID c) (ContentBlockUnion.Name c) (Input c)"
      by (simp add: ContentBlockUnion_ToParam_def)
    then show ?thesis using Cons.IH True by simp
  next
    case False
    then have "ContentBlockUnion_ToParam c = OfText (Text c) \<or> ContentBlockUnion_ToParam c = OfOther (Type c)"
      by (simp add: ContentBlockUnion_ToParam_def)
    then show ?thesis using Cons.IH False by auto
  qed
qed

lemma tool_result_ids_length:
  "list_all is_tool_result bs \<Longrightarrow> length (tool_result_ids bs) = length bs"
  by (induction bs rule: tool_result_ids.induct) auto

lemma chain_snoc:
  "chain R prev (ms @ [m]) = (chain R prev ms \<and> R (if ms = [] then prev else Some (last ms)) m)"
  by (induction ms arbitrary: prev) auto

lemma chain_nth:
  "chain R prev ms \<Longrightarrow> i < length ms \<Longrightarrow> R (if i = 0 then prev else Some (ms ! (i - 1))) (ms ! i)"
proof (induction ms arbitrary: prev i)
  case Nil
  then show ?case by simp
next
  case (Cons m ms)
  show ?case
  proof (cases i)
    case 0
    then show ?thesis using Cons.prems by simp
  next
    case (Suc j)
    then have "R (if j = 0 then Some m else Some (ms ! (j - 1))) (ms ! j)"
      using Cons.IH [of "Some m" j] Cons.prems by simp
    then show ?thesis using Suc by (cases j) auto
  qed
qed

lemma Run_invariant_init: "Run_invariant (Run_init w)"
  by (simp add: Run_invariant_def Run_init_def)

lemma ToParam_assistant: "isAssistantTurn (ToParam message)"
  by (simp add: ToParam_def)

lemma Run_invariant_step:
  assumes "Run_invariant s"
  shows "Run_invariant (Run_step a s)"
proof (cases "control s")
  case LoopHead
  show ?thesis
  proof (cases "readUserInput s")
    case False
    then show ?thesis using assms LoopHead by (simp add: Run_invariant_def Run_step_def)
  next
    case True
    obtain userInput ok w' where g: "getUserMessage a (world s) = ((userInput, ok), w')"
      by (metis prod.exhaust)
    show ?thesis
    proof (cases ok)
      case False
      then show ?thesis using assms LoopHead True g by (simp add: Run_invariant_def Run_step_def)
    next
      case ok: True
      have u: "isUserTurn (NewUserMessage [NewTextBlock userInput])"
        by (simp add: NewUserMessage_def NewTextBlock_def)
      have "turn_follows (if conversation s = [] then None else Some (last (conversation s)))
              (NewUserMessage [NewTextBlock userInput])"
        using assms LoopHead True u by (auto simp add: Run_invariant_def turn_follows_def)
      then show ?thesis
        using assms LoopHead True g ok
        by (simp add: Run_invariant_def Run_step_def chain_snoc NewUserMessage_def)
    qed
  qed
next
  case Inference
  obtain r w' where i: "runInference a (conversation s) (world s) = (r, w')"
    by (metis prod.exhaust)
  show ?thesis
  proof (cases r)
    case (Inl err)
    then show ?thesis using assms Inference i by (simp add: Run_invariant_def Run_step_def)
  next
    case (Inr message)
    have "turn_follows (if conversation s = [] then None else Some (last (conversation s)))
              (ToParam message)"
      using assms Inference ToParam_assistant by (auto simp add: Run_invariant_def turn_follows_def)
    then show ?thesis
      using assms Inference i Inr by (simp add: Run_invariant_def Run_step_def chain_snoc)
  qed
next
  case (Dispatch message)
  obtain o' w' where d: "dispatch_content a (Message.Content message) [] (world s) = (o', w')"
    by (metis prod.exhaust)
  show ?thesis
  proof (cases o')
    case (Panic e)
    then show ?thesis using assms Dispatch d by (simp add: Run_invariant_def Run_step_def)
  next
    case (Return toolResults)
    from dispatch_content_results [OF d [unfolded Return]]
    have tr: "list_all is_tool_result toolResults"
      and ids: "tool_result_ids toolResults = tool_use_ids (MessageParam.Content (ToParam message))"
      by (auto simp add: ToParam_def tool_use_ids_ToParam)
    have lst: "conversation s \<noteq> []" "last (conversation s) = ToParam message"
      using assms Dispatch by (simp_all add: Run_invariant_def)
    show ?thesis
    proof (cases "toolResults = []")
      case True
      then have "tool_use_ids (MessageParam.Content (last (conversation s))) = []"
        using ids lst by simp
      then show ?thesis
        using assms Dispatch d Return True lst ToParam_assistant
        by (simp add: Run_invariant_def Run_step_def)
    next
      case False
      have "isToolResultTurn (NewUserMessage toolResults)"
        using tr False by (simp add: NewUserMessage_def)
      moreover have "tool_use_ids (MessageParam.Content (ToParam message)) \<noteq> []"
        using ids tr False tool_result_ids_length by fastforce
      ultimately have "turn_follows (Some (last (conversation s))) (NewUserMessage toolResults)"
        using ids lst ToParam_assistant by (simp add: turn_follows_def NewUserMessage_def)
      then show ?thesis
        using assms Dispatch d Return False lst
        by (simp add: Run_invariant_def Run_step_def chain_snoc NewUserMessage_def)
    qed
  qed
next
  case (Finished r)
  then show ?thesis using assms by (simp add: Run_invariant_def Run_step_def)
qed

lemma reachable_invariant: "reachable a w0 s \<Longrightarrow> Run_invariant s"
proof (induction rule: reachable.induct)
  case reachable_init
  show ?case by (rule Run_invariant_init)
next
  case (reachable_step s)
  from reachable_step.IH show ?case by (rule Run_invariant_step)
qed

text \<open>Every number of steps of the machine from the initial state gives a state that is reached.\<close>

lemma reachable_steps: "reachable a w0 ((Run_step a ^^ n) (Run_init w0))"
proof (induction n)
  case 0
  show ?case by (simp add: reachable_init)
next
  case (Suc n)
  then have "reachable a w0 (Run_step a ((Run_step a ^^ n) (Run_init w0)))"
    by (rule reachable_step)
  then show ?case by simp
qed


text \<open>The six steps of the session, one by one.\<close>

lemma ex_session_steps:
  "Run_step ex_agent (ex_session_state 0) = ex_session_state 1"
  "Run_step ex_agent (ex_session_state 1) = ex_session_state 2"
  "Run_step ex_agent (ex_session_state 2) = ex_session_state 3"
  "Run_step ex_agent (ex_session_state 3) = ex_session_state 4"
  "Run_step ex_agent (ex_session_state 4) = ex_session_state 5"
  "Run_step ex_agent (ex_session_state 5) = ex_session_state 6"
  by code_simp+

lemma ex_session_reachable: "reachable ex_agent ex_session (ex_session_state 6)"
proof -
  have 0: "reachable ex_agent ex_session (ex_session_state 0)"
    using reachable_init [of ex_agent ex_session] by (simp add: ex_session_state_def)
  have 1: "reachable ex_agent ex_session (ex_session_state 1)"
    using reachable_step [OF 0] by (simp only: ex_session_steps)
  have 2: "reachable ex_agent ex_session (ex_session_state 2)"
    using reachable_step [OF 1] by (simp only: ex_session_steps)
  have 3: "reachable ex_agent ex_session (ex_session_state 3)"
    using reachable_step [OF 2] by (simp only: ex_session_steps)
  have 4: "reachable ex_agent ex_session (ex_session_state 4)"
    using reachable_step [OF 3] by (simp only: ex_session_steps)
  have 5: "reachable ex_agent ex_session (ex_session_state 5)"
    using reachable_step [OF 4] by (simp only: ex_session_steps)
  show ?thesis
    using reachable_step [OF 5] by (simp only: ex_session_steps)
qed

lemma ex_session_state_6:
  "conversation (ex_session_state 6) = ex_session_conversation"
  by (simp add: ex_session_state_def)

lemma user_turn_not_tool_result: "isUserTurn m \<Longrightarrow> \<not> isToolResultTurn m"
  by (cases "MessageParam.Content m" rule: list.exhaust)
     (auto split: list.splits ContentBlockParamUnion.splits)

lemma turn_follows_no_two_user_turns:
  assumes "turn_follows (Some p) m" "isUserTurn p"
  shows "\<not> isUserTurn m"
proof -
  have "\<not> isAssistantTurn p" using assms(2) by auto
  then have "isAssistantTurn m" using assms(1) by (simp add: turn_follows_def)
  then show ?thesis by auto
qed

lemma turn_follows_tool_result:
  assumes "turn_follows prev m" "isToolResultTurn m"
  shows "\<exists>p. prev = Some p \<and> isAssistantTurn p \<and> tool_use_ids (MessageParam.Content p) \<noteq> []"
proof (cases prev)
  case None
  then have "isUserTurn m" using assms(1) by (simp add: turn_follows_def)
  then show ?thesis using assms(2) user_turn_not_tool_result by blast
next
  case (Some p)
  show ?thesis
  proof (cases "isAssistantTurn p")
    case False
    then have "isAssistantTurn m" using assms(1) Some by (simp add: turn_follows_def)
    then show ?thesis using assms(2) by auto
  next
    case True
    show ?thesis
    proof (cases "tool_use_ids (MessageParam.Content p) = []")
      case e: True
      then have "isUserTurn m" using assms(1) Some True by (simp add: turn_follows_def)
      then show ?thesis using assms(2) user_turn_not_tool_result by blast
    next
      case False
      then show ?thesis using Some True by blast
    qed
  qed
qed

lemma turn_follows_kind:
  "turn_follows prev m \<Longrightarrow> isUserTurn m \<or> isAssistantTurn m \<or> isToolResultTurn m"
  by (cases prev) (auto simp add: turn_follows_def split: if_splits)

lemma only_tool_results_kind:
  assumes "holds_only_tool_results m" and "isUserTurn m \<or> isAssistantTurn m \<or> isToolResultTurn m"
  shows "isToolResultTurn m"
proof -
  have "\<not> isAssistantTurn m" using assms(1) by simp
  moreover have "\<not> isUserTurn m"
  proof
    assume "isUserTurn m"
    then obtain t where "MessageParam.Content m = [OfText t]"
      by (auto split: list.splits ContentBlockParamUnion.splits)
    then show False using assms(1) by simp
  qed
  ultimately show ?thesis using assms(2) by blast
qed

text \<open>
  C1. In every state that \<open>Run\<close> reaches, every message of the conversation is a turn of
  the operator, a reply of the model or a turn of tool results, which is not empty; no two
  neighbouring messages are both turns of the operator; and a turn of tool results, or any
  message of the user side that holds only tool results, were they none, is never the first
  message: the message before it is a reply of the model that holds at least one tool-use
  segment.
\<close>

theorem conversation_turn_order:
  assumes "reachable a w0 s"
  shows "(\<forall>i. Suc i < length (conversation s)
            \<longrightarrow> \<not> (isUserTurn (conversation s ! i) \<and> isUserTurn (conversation s ! Suc i)))
         \<and> (\<forall>i. i < length (conversation s) \<and> isToolResultTurn (conversation s ! i)
            \<longrightarrow> 0 < i \<and> isAssistantTurn (conversation s ! (i - 1))
                \<and> tool_use_ids (MessageParam.Content (conversation s ! (i - 1))) \<noteq> [])
         \<and> (\<forall>i. i < length (conversation s)
            \<longrightarrow> isUserTurn (conversation s ! i) \<or> isAssistantTurn (conversation s ! i)
                \<or> isToolResultTurn (conversation s ! i))
         \<and> (\<forall>i. i < length (conversation s) \<and> holds_only_tool_results (conversation s ! i)
            \<longrightarrow> MessageParam.Content (conversation s ! i) \<noteq> []
                \<and> 0 < i \<and> isAssistantTurn (conversation s ! (i - 1))
                \<and> tool_use_ids (MessageParam.Content (conversation s ! (i - 1))) \<noteq> [])"
proof -
  have c: "chain turn_follows None (conversation s)"
    using reachable_invariant [OF assms] by (simp add: Run_invariant_def)
  have kind: "isUserTurn (conversation s ! i) \<or> isAssistantTurn (conversation s ! i)
                \<or> isToolResultTurn (conversation s ! i)"
    if "i < length (conversation s)" for i
    using chain_nth [OF c that] by (rule turn_follows_kind)
  have before: "0 < i \<and> isAssistantTurn (conversation s ! (i - 1))
                \<and> tool_use_ids (MessageParam.Content (conversation s ! (i - 1))) \<noteq> []"
    if i: "i < length (conversation s)" and r: "isToolResultTurn (conversation s ! i)" for i
  proof -
    have t: "turn_follows (if i = 0 then None else Some (conversation s ! (i - 1))) (conversation s ! i)"
      using chain_nth [OF c i] .
    from turn_follows_tool_result [OF t r]
    obtain p where p: "(if i = 0 then None else Some (conversation s ! (i - 1))) = Some p"
      "isAssistantTurn p" "tool_use_ids (MessageParam.Content p) \<noteq> []"
      by blast
    from p(1) have pos: "0 < i" by (cases "i = 0") simp_all
    then have "p = conversation s ! (i - 1)" using p(1) by simp
    then show ?thesis using pos p(2,3) by simp
  qed
  show ?thesis
  proof (intro conjI allI impI)
    fix i
    assume i: "Suc i < length (conversation s)"
    have "turn_follows (Some (conversation s ! i)) (conversation s ! Suc i)"
      using chain_nth [OF c i] by simp
    then show "\<not> (isUserTurn (conversation s ! i) \<and> isUserTurn (conversation s ! Suc i))"
      using turn_follows_no_two_user_turns by blast
  next
    fix i
    assume h: "i < length (conversation s) \<and> isToolResultTurn (conversation s ! i)"
    then have b: "0 < i \<and> isAssistantTurn (conversation s ! (i - 1))
                \<and> tool_use_ids (MessageParam.Content (conversation s ! (i - 1))) \<noteq> []"
      using before by blast
    from b show "0 < i" by simp
    from b show "isAssistantTurn (conversation s ! (i - 1))" by simp
    from b show "tool_use_ids (MessageParam.Content (conversation s ! (i - 1))) \<noteq> []" by simp
  next
    fix i
    assume "i < length (conversation s)"
    then show "isUserTurn (conversation s ! i) \<or> isAssistantTurn (conversation s ! i)
                \<or> isToolResultTurn (conversation s ! i)"
      by (rule kind)
  next
    fix i
    assume h: "i < length (conversation s) \<and> holds_only_tool_results (conversation s ! i)"
    then have r: "isToolResultTurn (conversation s ! i)"
      using kind only_tool_results_kind by blast
    then have b: "0 < i \<and> isAssistantTurn (conversation s ! (i - 1))
                \<and> tool_use_ids (MessageParam.Content (conversation s ! (i - 1))) \<noteq> []"
      using before h by blast
    from r show "MessageParam.Content (conversation s ! i) \<noteq> []" by simp
    from b show "0 < i" by simp
    from b show "isAssistantTurn (conversation s ! (i - 1))" by simp
    from b show "tool_use_ids (MessageParam.Content (conversation s ! (i - 1))) \<noteq> []" by simp
  qed
qed

text \<open>
  The session above, when the loop is back at its head after six steps: the third message
  holds only tool results, is not empty, and comes after the reply that asked for
  \<^verbatim>\<open>list_files\<close>; the last message is a reply without tool use and nothing follows it.
\<close>

theorem conversation_turn_order_witness:
  "conversation (ex_session_state 6) = ex_session_conversation
   \<and> length ex_session_conversation = 4
   \<and> \<not> (isUserTurn (ex_session_conversation ! 2) \<and> isUserTurn (ex_session_conversation ! 3))
   \<and> holds_only_tool_results (ex_session_conversation ! 2)
   \<and> isToolResultTurn (ex_session_conversation ! 2)
   \<and> MessageParam.Content (ex_session_conversation ! 2) \<noteq> []
   \<and> isAssistantTurn (ex_session_conversation ! 1)
   \<and> tool_use_ids (MessageParam.Content (ex_session_conversation ! 1)) \<noteq> []
   \<and> (isUserTurn (ex_session_conversation ! 3) \<or> isAssistantTurn (ex_session_conversation ! 3)
        \<or> isToolResultTurn (ex_session_conversation ! 3))"
proof -
  note t = conversation_turn_order [OF ex_session_reachable, unfolded ex_session_state_6]
  have len: "length ex_session_conversation = 4"
    by (simp add: ex_session_conversation_def)
  have l: "Suc 2 < length ex_session_conversation"
    by (simp add: ex_session_conversation_def)
  have l3: "3 < length ex_session_conversation"
    by (simp add: ex_session_conversation_def)
  have r: "isToolResultTurn (ex_session_conversation ! 2)"
    by (simp add: ex_session_conversation_def)
  have o: "holds_only_tool_results (ex_session_conversation ! 2)"
    by (simp add: ex_session_conversation_def)
  have a: "\<not> (isUserTurn (ex_session_conversation ! 2) \<and> isUserTurn (ex_session_conversation ! Suc 2))"
    using t [THEN conjunct1, rule_format, of 2] l by blast
  have l2: "2 < length ex_session_conversation \<and> holds_only_tool_results (ex_session_conversation ! 2)"
    using l o by simp
  have b: "MessageParam.Content (ex_session_conversation ! 2) \<noteq> []
     \<and> 0 < (2::nat) \<and> isAssistantTurn (ex_session_conversation ! (2 - 1))
     \<and> tool_use_ids (MessageParam.Content (ex_session_conversation ! (2 - 1))) \<noteq> []"
    using t [THEN conjunct2, THEN conjunct2, THEN conjunct2, rule_format, of 2] l2 by blast
  have k: "isUserTurn (ex_session_conversation ! 3) \<or> isAssistantTurn (ex_session_conversation ! 3)
        \<or> isToolResultTurn (ex_session_conversation ! 3)"
    using t [THEN conjunct2, THEN conjunct2, THEN conjunct1, rule_format, of 3] l3 by blast
  have n: "Suc 2 = 3" "(2::nat) - 1 = 1" by simp_all
  show ?thesis using a b r o k len ex_session_state_6 unfolding n by blast
qed

lemma Run_step_Dispatch_Return:
  assumes "control s = Dispatch message"
    and "dispatch_content a (Message.Content message) [] (world s) = (Return toolResults, w')"
    and "tool_use_ids (MessageParam.Content (ToParam message)) \<noteq> []"
  shows "conversation (Run_step a s) = conversation s @ [NewUserMessage toolResults]"
    and "list_all is_tool_result toolResults"
    and "tool_result_ids toolResults = tool_use_ids (MessageParam.Content (ToParam message))"
proof -
  from dispatch_content_results [OF assms(2)]
  show tr: "list_all is_tool_result toolResults"
    and ids: "tool_result_ids toolResults = tool_use_ids (MessageParam.Content (ToParam message))"
    by (auto simp add: ToParam_def tool_use_ids_ToParam)
  have "toolResults \<noteq> []" using ids assms(3) by auto
  then show "conversation (Run_step a s) = conversation s @ [NewUserMessage toolResults]"
    using assms(1,2) by (simp add: Run_step_def)
qed

text \<open>
  C2. In every state that \<open>Run\<close> reaches, the message after a reply with \<open>k > 0\<close>
  tool-use segments is a turn of tool results with \<open>k\<close> entries, whose ids are the ids of
  the segments in the same order. And the loop appends it: at the dispatch of a reply
  with tool-use segments, when the tools return, the step adds to the conversation exactly
  that one turn.
\<close>

theorem tool_results_match_requests:
  "(reachable a w0 s \<and> Suc i < length (conversation s)
      \<and> isAssistantTurn (conversation s ! i)
      \<and> tool_use_ids (MessageParam.Content (conversation s ! i)) \<noteq> []
    \<longrightarrow> isToolResultTurn (conversation s ! Suc i)
        \<and> length (MessageParam.Content (conversation s ! Suc i))
            = length (tool_use_ids (MessageParam.Content (conversation s ! i)))
        \<and> tool_result_ids (MessageParam.Content (conversation s ! Suc i))
            = tool_use_ids (MessageParam.Content (conversation s ! i)))
   \<and> (control s' = Dispatch message
      \<and> tool_use_ids (MessageParam.Content (ToParam message)) \<noteq> []
      \<and> dispatch_content a' (Message.Content message) [] (world s') = (Return toolResults, w')
    \<longrightarrow> conversation (Run_step a' s') = conversation s' @ [NewUserMessage toolResults]
        \<and> isToolResultTurn (NewUserMessage toolResults)
        \<and> length toolResults = length (tool_use_ids (MessageParam.Content (ToParam message)))
        \<and> tool_result_ids toolResults = tool_use_ids (MessageParam.Content (ToParam message)))"
proof (intro conjI impI)
  assume h: "reachable a w0 s \<and> Suc i < length (conversation s)
      \<and> isAssistantTurn (conversation s ! i)
      \<and> tool_use_ids (MessageParam.Content (conversation s ! i)) \<noteq> []"
  then have "reachable a w0 s" by simp
  then have "Run_invariant s" by (rule reachable_invariant)
  then have c: "chain turn_follows None (conversation s)"
    by (simp add: Run_invariant_def)
  have i: "Suc i < length (conversation s)" using h by simp
  have "turn_follows (Some (conversation s ! i)) (conversation s ! Suc i)"
    using chain_nth [OF c i] by simp
  then have t: "isToolResultTurn (conversation s ! Suc i)"
    and ids: "tool_result_ids (MessageParam.Content (conversation s ! Suc i))
            = tool_use_ids (MessageParam.Content (conversation s ! i))"
    using h by (simp_all add: turn_follows_def)
  show "isToolResultTurn (conversation s ! Suc i)" by (rule t)
  show "tool_result_ids (MessageParam.Content (conversation s ! Suc i))
            = tool_use_ids (MessageParam.Content (conversation s ! i))" by (rule ids)
  have "list_all is_tool_result (MessageParam.Content (conversation s ! Suc i))"
    using t by simp
  then show "length (MessageParam.Content (conversation s ! Suc i))
            = length (tool_use_ids (MessageParam.Content (conversation s ! i)))"
    using tool_result_ids_length ids by metis
next
  assume h: "control s' = Dispatch message
      \<and> tool_use_ids (MessageParam.Content (ToParam message)) \<noteq> []
      \<and> dispatch_content a' (Message.Content message) [] (world s') = (Return toolResults, w')"
  then have c: "control s' = Dispatch message"
    and d: "dispatch_content a' (Message.Content message) [] (world s') = (Return toolResults, w')"
    and n: "tool_use_ids (MessageParam.Content (ToParam message)) \<noteq> []"
    by simp_all
  note r = Run_step_Dispatch_Return [OF c d n]
  show "conversation (Run_step a' s') = conversation s' @ [NewUserMessage toolResults]"
    by (rule r(1))
  show ids: "tool_result_ids toolResults = tool_use_ids (MessageParam.Content (ToParam message))"
    by (rule r(3))
  show len: "length toolResults = length (tool_use_ids (MessageParam.Content (ToParam message)))"
    using tool_result_ids_length [OF r(2)] ids by simp
  then have "toolResults \<noteq> []" using n by auto
  then show "isToolResultTurn (NewUserMessage toolResults)"
    using r(2) by (simp add: NewUserMessage_def)
qed

text \<open>The same session: one request \<open>toolu_1\<close>, one result \<open>toolu_1\<close>.\<close>

theorem tool_results_match_requests_witness:
  \<open>tool_use_ids (MessageParam.Content (ex_session_conversation ! 1)) = [''toolu_1'']
   \<and> isToolResultTurn (ex_session_conversation ! 2)
   \<and> length (MessageParam.Content (ex_session_conversation ! 2)) = 1
   \<and> tool_result_ids (MessageParam.Content (ex_session_conversation ! 2)) = [''toolu_1'']
   \<and> conversation (Run_step ex_agent (ex_session_state 2))
       = conversation (ex_session_state 2)
         @ [NewUserMessage [OfToolResult ''toolu_1'' ''["notes.txt","src/","src/main.go"]'' False]]\<close>
proof -
  let ?rs = \<open>[OfToolResult ''toolu_1'' ''["notes.txt","src/","src/main.go"]'' False]\<close>
  note t1 = tool_results_match_requests [where a = ex_agent and ?w0.0 = ex_session
      and s = "ex_session_state 6" and i = 1, THEN conjunct1, unfolded ex_session_state_6]
  note t2 = tool_results_match_requests [where s' = "ex_session_state 2" and message = ex_reply_call
      and a' = ex_agent and toolResults = ?rs and w' = "world (ex_session_state 2)", THEN conjunct2]
  have l: "Suc 1 < length ex_session_conversation"
    by (simp add: ex_session_conversation_def)
  have a: "isAssistantTurn (ex_session_conversation ! 1)"
    by (simp add: ex_session_conversation_def)
  have u: "tool_use_ids (MessageParam.Content (ex_session_conversation ! 1)) = [''toolu_1'']"
    by (simp add: ex_session_conversation_def)
  have c: "control (ex_session_state 2) = Dispatch ex_reply_call"
    by (simp add: ex_session_state_def)
  have p: "tool_use_ids (MessageParam.Content (ToParam ex_reply_call)) \<noteq> []"
    by code_simp
  have d: "dispatch_content ex_agent (Message.Content ex_reply_call) [] (world (ex_session_state 2))
             = (Return ?rs, world (ex_session_state 2))"
    by code_simp
  have 1: "isToolResultTurn (ex_session_conversation ! Suc 1)
        \<and> length (MessageParam.Content (ex_session_conversation ! Suc 1))
            = length (tool_use_ids (MessageParam.Content (ex_session_conversation ! 1)))
        \<and> tool_result_ids (MessageParam.Content (ex_session_conversation ! Suc 1))
            = tool_use_ids (MessageParam.Content (ex_session_conversation ! 1))"
    using t1 ex_session_reachable l a u by simp
  have 2: "conversation (Run_step ex_agent (ex_session_state 2))
       = conversation (ex_session_state 2) @ [NewUserMessage ?rs]"
    using t2 c p d by blast
  have n: "Suc 1 = 2" by simp
  show ?thesis using 1 2 u unfolding n by simp
qed

end
